theory Spec2Isabelle
  imports Complex_Main "HOL-Library.Log_Nat"
begin

section \<open>The number type of the source language\<close>

text \<open>
  Every numeric variable of \<^verbatim>\<open>src/main.ts\<close> (\<^verbatim>\<open>x\<close>, \<^verbatim>\<open>y\<close>, \<^verbatim>\<open>dx\<close>, \<^verbatim>\<open>dy\<close>,
  \<^verbatim>\<open>radius\<close>, \<^verbatim>\<open>speed\<close>, \<^verbatim>\<open>dt\<close>) has the TypeScript type \<^verbatim>\<open>number\<close>: an IEEE 754
  binary64 value. The model keeps the five kinds of value apart. \<open>Fin r\<close> is the finite
  value \<open>r\<close>, where \<open>Fin 0\<close> is the positive zero; \<open>NegZero\<close> is the negative zero. All
  not-a-number values are one value \<open>NaN\<close>, as the language cannot tell them apart.
  Arithmetic is exact arithmetic on rationals followed by rounding to the nearest
  binary64 value, ties to the even significand.
\<close>

datatype number = Fin rat | NegZero | PosInf | NegInf | NaN

fun val :: "number \<Rightarrow> rat" where
  "val (Fin r) = r"
| "val NegZero = 0"
| "val PosInf = 0"
| "val NegInf = 0"
| "val NaN = 0"

fun is_zero :: "number \<Rightarrow> bool" where
  "is_zero (Fin r) = (r = 0)"
| "is_zero NegZero = True"
| "is_zero PosInf = False"
| "is_zero NegInf = False"
| "is_zero NaN = False"

fun is_inf :: "number \<Rightarrow> bool" where
  "is_inf (Fin r) = False"
| "is_inf NegZero = False"
| "is_inf PosInf = True"
| "is_inf NegInf = True"
| "is_inf NaN = False"

fun is_finite :: "number \<Rightarrow> bool" where
  "is_finite (Fin r) = True"
| "is_finite NegZero = True"
| "is_finite PosInf = False"
| "is_finite NegInf = False"
| "is_finite NaN = False"

text \<open>The sign bit: set for negative values, the negative zero and the negative infinity.\<close>

fun sign_bit :: "number \<Rightarrow> bool" where
  "sign_bit (Fin r) = (r < 0)"
| "sign_bit NegZero = True"
| "sign_bit PosInf = False"
| "sign_bit NegInf = True"
| "sign_bit NaN = False"

definition signed_zero :: "bool \<Rightarrow> number" where
  "signed_zero s = (if s then NegZero else Fin 0)"

definition signed_inf :: "bool \<Rightarrow> number" where
  "signed_inf s = (if s then NegInf else PosInf)"

subsection \<open>Rounding to binary64\<close>

text \<open>
  \<open>ilog2 r\<close> is the binary exponent of a positive rational: the integer \<open>e\<close> with
  \<open>2\<^sup>e \<le> r < 2\<^sup>e\<^sup>+\<^sup>1\<close>.
\<close>

definition ilog2 :: "rat \<Rightarrow> int" where
  "ilog2 r = (if 1 \<le> r then bitlen \<lfloor>r\<rfloor> - 1 else - bitlen (\<lceil>1 / r\<rceil> - 1))"

text \<open>Rounding to the nearest integer, a tie going to the even one.\<close>

definition round_half_even :: "rat \<Rightarrow> int" where
  "round_half_even t =
     (let f = \<lfloor>t\<rfloor>; d = t - of_int f
      in if d < 1 / 2 then f
         else if 1 / 2 < d then f + 1
         else if even f then f else f + 1)"

text \<open>
  The binary64 value of a rational. A value with binary exponent \<open>e\<close> is rounded to a
  multiple of \<open>2\<^sup>q\<close> with \<open>q = e - 52\<close> (53 significant bits), and of \<open>2\<^sup>-\<^sup>1\<^sup>0\<^sup>7\<^sup>4\<close> in the
  subnormal range. A result of magnitude \<open>2\<^sup>1\<^sup>0\<^sup>2\<^sup>4\<close> is an infinity; a negative value
  that rounds to zero is the negative zero.
\<close>

definition round_f64 :: "rat \<Rightarrow> number" where
  "round_f64 r =
     (if r = 0 then Fin 0
      else
        let q = max (ilog2 \<bar>r\<bar> - 52) (- 1074);
            m = round_half_even (r / 2 powi q);
            v = of_int m * 2 powi q
        in if 2 ^ 1024 \<le> \<bar>v\<bar> then signed_inf (r < 0)
           else if m = 0 then signed_zero (r < 0)
           else Fin v)"

text \<open>The values of the datatype that are binary64 values: rounding leaves them as they are.\<close>

fun is_f64 :: "number \<Rightarrow> bool" where
  "is_f64 (Fin r) = (round_f64 r = Fin r)"
| "is_f64 NegZero = True"
| "is_f64 PosInf = True"
| "is_f64 NegInf = True"
| "is_f64 NaN = True"

subsection \<open>The operators the program uses\<close>

text \<open>
  Unary minus, \<^verbatim>\<open>+\<close>, \<^verbatim>\<open>-\<close>, \<^verbatim>\<open>*\<close>, \<^verbatim>\<open>/\<close>, \<^verbatim>\<open><\<close> and \<^verbatim>\<open><=\<close> on numbers, so that the program
  below is written with the operators of its source. \<^verbatim>\<open>a >= b\<close> is \<open>b \<le> a\<close>. A
  comparison with \<open>NaN\<close> on either side is false. \<open>abs\<close> is \<^verbatim>\<open>Math.abs\<close>; the program
  does not call it, the statements about the magnitude of the velocity do.
\<close>

instantiation number :: "{uminus, plus, minus, times, inverse, ord, abs}"
begin

definition uminus_number :: "number \<Rightarrow> number" where
  "uminus_number a =
     (case a of
        Fin r \<Rightarrow> if r = 0 then NegZero else Fin (- r)
      | NegZero \<Rightarrow> Fin 0
      | PosInf \<Rightarrow> NegInf
      | NegInf \<Rightarrow> PosInf
      | NaN \<Rightarrow> NaN)"

definition plus_number :: "number \<Rightarrow> number \<Rightarrow> number" where
  "plus_number a b =
     (if a = NaN \<or> b = NaN then NaN
      else if a = PosInf \<and> b = NegInf then NaN
      else if a = NegInf \<and> b = PosInf then NaN
      else if is_inf a then a
      else if is_inf b then b
      else if a = NegZero \<and> b = NegZero then NegZero
      else round_f64 (val a + val b))"

definition minus_number :: "number \<Rightarrow> number \<Rightarrow> number" where
  "minus_number a b = a + (- b)"

definition times_number :: "number \<Rightarrow> number \<Rightarrow> number" where
  "times_number a b =
     (if a = NaN \<or> b = NaN then NaN
      else if (is_inf a \<and> is_zero b) \<or> (is_zero a \<and> is_inf b) then NaN
      else if is_inf a \<or> is_inf b then signed_inf (sign_bit a \<noteq> sign_bit b)
      else if is_zero a \<or> is_zero b then signed_zero (sign_bit a \<noteq> sign_bit b)
      else round_f64 (val a * val b))"

definition divide_number :: "number \<Rightarrow> number \<Rightarrow> number" where
  "divide_number a b =
     (if a = NaN \<or> b = NaN then NaN
      else if (is_inf a \<and> is_inf b) \<or> (is_zero a \<and> is_zero b) then NaN
      else if is_inf a \<or> is_zero b then signed_inf (sign_bit a \<noteq> sign_bit b)
      else if is_inf b \<or> is_zero a then signed_zero (sign_bit a \<noteq> sign_bit b)
      else round_f64 (val a / val b))"

definition inverse_number :: "number \<Rightarrow> number" where
  "inverse_number a =
     (if a = NaN then NaN
      else if is_zero a then signed_inf (sign_bit a)
      else if is_inf a then signed_zero (sign_bit a)
      else round_f64 (1 / val a))"

definition less_number :: "number \<Rightarrow> number \<Rightarrow> bool" where
  "less_number a b =
     (if a = NaN \<or> b = NaN then False
      else if a = PosInf then False
      else if b = PosInf then True
      else if b = NegInf then False
      else if a = NegInf then True
      else val a < val b)"

definition less_eq_number :: "number \<Rightarrow> number \<Rightarrow> bool" where
  "less_eq_number a b = (a \<noteq> NaN \<and> b \<noteq> NaN \<and> \<not> b < a)"

definition abs_number :: "number \<Rightarrow> number" where
  "abs_number a =
     (case a of
        Fin r \<Rightarrow> Fin \<bar>r\<bar>
      | NegZero \<Rightarrow> Fin 0
      | PosInf \<Rightarrow> PosInf
      | NegInf \<Rightarrow> PosInf
      | NaN \<Rightarrow> NaN)"

instance ..

end

text \<open>Strict equality \<^verbatim>\<open>===\<close> on numbers: the two zeros are equal, \<open>NaN\<close> equals nothing.\<close>

definition strict_eq :: "number \<Rightarrow> number \<Rightarrow> bool" where
  "strict_eq a b = (a \<noteq> NaN \<and> b \<noteq> NaN \<and> \<not> a < b \<and> \<not> b < a)"

text \<open>\<^verbatim>\<open>Number.isInteger\<close>.\<close>

fun is_integer :: "number \<Rightarrow> bool" where
  "is_integer (Fin r) = (of_int \<lfloor>r\<rfloor> = r)"
| "is_integer NegZero = True"
| "is_integer PosInf = False"
| "is_integer NegInf = False"
| "is_integer NaN = False"

section \<open>The page and the engine\<close>

text \<open>
  The handler looks one element up in the document. An element is known by its tag; the
  document maps an id to its element, and \<^verbatim>\<open>getElementById\<close> returns \<^verbatim>\<open>null\<close> (\<open>None\<close>)
  for an id that has none.
\<close>

datatype element = Element string

type_synonym document = "string \<rightharpoonup> element"

definition getElementById :: "document \<Rightarrow> string \<Rightarrow> element option" where
  "getElementById doc i = doc i"

text \<open>
  The engine (\<^verbatim>\<open>@dmitrii-eremin/passion-engine\<close>) is a dependency, not code of this
  repository. The model keeps what the program can observe of it: the viewport extents
  it reads back (\<^verbatim>\<open>system.width\<close>, \<^verbatim>\<open>system.height\<close>), the state of the random number
  generator, and the sequence of calls the program makes into it.
\<close>

datatype call =
    System_init number number string
  | Math_rndi number number
  | System_run
  | Graphics_cls number
  | Graphics_circ number number number number
  | Graphics_text number number string number

record 'g passion =
  surface :: element
  width :: number
  height :: number
  rng :: 'g
  calls :: "call list"

text \<open>
  Modelled from the spec: \<^verbatim>\<open>system.init(width, height, title)\<close>, which is engine code.
  The spec says that it configures a fixed logical viewport size and window title, and
  that \<^verbatim>\<open>system.width\<close> and \<^verbatim>\<open>system.height\<close> are the current viewport extents.
\<close>

definition system_init :: "'g passion \<Rightarrow> number \<Rightarrow> number \<Rightarrow> string \<Rightarrow> 'g passion" where
  "system_init p w h t = p\<lparr>width := w, height := h, calls := calls p @ [System_init w h t]\<rparr>"

text \<open>
  Modelled from the spec: \<^verbatim>\<open>math.rndi(min, max)\<close>, which is engine code. The generator
  itself is the parameter \<open>rndi\<close>: from its state and the two bounds it gives a number
  and its next state.
\<close>

definition math_rndi ::
  "('g \<Rightarrow> number \<Rightarrow> number \<Rightarrow> number \<times> 'g) \<Rightarrow> 'g passion \<Rightarrow> number \<Rightarrow> number \<Rightarrow> number \<times> 'g passion" where
  "math_rndi rndi p lo hi =
     (let (v, g) = rndi (rng p) lo hi
      in (v, p\<lparr>rng := g, calls := calls p @ [Math_rndi lo hi]\<rparr>))"

text \<open>
  Modelled from the spec: \<^verbatim>\<open>system.run(updateFn, drawFn)\<close>, which is engine code. It
  registers the two callbacks and begins the frame loop. The call is recorded in the
  engine, and the registration, the pair of the two callbacks in the order they were
  passed, is returned beside it: the callbacks are functions on the scope that holds the
  engine, so the engine's own record cannot hold them.
\<close>

definition system_run :: "'g passion \<Rightarrow> 'u \<Rightarrow> 'd \<Rightarrow> 'g passion \<times> ('u \<times> 'd)" where
  "system_run p updateFn drawFn = (p\<lparr>calls := calls p @ [System_run]\<rparr>, (updateFn, drawFn))"

text \<open>
  Modelled from the spec: the drawing primitives \<^verbatim>\<open>graphics.cls\<close>, \<^verbatim>\<open>graphics.circ\<close> and
  \<^verbatim>\<open>graphics.text\<close>, which are engine code. Each is recorded with its arguments.
\<close>

definition graphics_cls :: "'g passion \<Rightarrow> number \<Rightarrow> 'g passion" where
  "graphics_cls p c = p\<lparr>calls := calls p @ [Graphics_cls c]\<rparr>"

definition graphics_circ :: "'g passion \<Rightarrow> number \<Rightarrow> number \<Rightarrow> number \<Rightarrow> number \<Rightarrow> 'g passion" where
  "graphics_circ p cx cy r c = p\<lparr>calls := calls p @ [Graphics_circ cx cy r c]\<rparr>"

definition graphics_text :: "'g passion \<Rightarrow> number \<Rightarrow> number \<Rightarrow> string \<Rightarrow> number \<Rightarrow> 'g passion" where
  "graphics_text p tx ty s c = p\<lparr>calls := calls p @ [Graphics_text tx ty s c]\<rparr>"

section \<open>The program\<close>

text \<open>
  The scope that the two callbacks close over: the engine \<^verbatim>\<open>passion\<close>, the constants
  \<^verbatim>\<open>radius\<close> and \<^verbatim>\<open>speed\<close>, and the variables \<^verbatim>\<open>x\<close>, \<^verbatim>\<open>y\<close>, \<^verbatim>\<open>dx\<close>, \<^verbatim>\<open>dy\<close>.
\<close>

record 'g env =
  passion :: "'g passion"
  radius :: number
  speed :: number
  x :: number
  y :: number
  dx :: number
  dy :: number

text \<open>
  The update callback, \<^verbatim>\<open>(dt: number) => { ... }\<close>. Its first two statements move the
  ball:
  \<^verbatim>\<open>x += speed * dx * dt; y += speed * dy * dt;\<close>
\<close>

definition advance :: "'g env \<Rightarrow> number \<Rightarrow> 'g env" where
  "advance e dt =
     (let e = e\<lparr>x := x e + speed e * dx e * dt\<rparr>
      in e\<lparr>y := y e + speed e * dy e * dt\<rparr>)"

text \<open>
  Its two conditionals reverse a velocity component at an edge:
  \<^verbatim>\<open>if (x - radius <= 0 || x + radius >= passion.system.width) { dx = -dx; }\<close>
  \<^verbatim>\<open>if (y - radius <= 0 || y + radius >= passion.system.height) { dy = -dy; }\<close>
\<close>

definition bounce :: "'g env \<Rightarrow> 'g env" where
  "bounce e =
     (let e = (if x e - radius e \<le> Fin 0 \<or> x e + radius e \<ge> width (passion e)
               then e\<lparr>dx := - dx e\<rparr> else e)
      in if y e - radius e \<le> Fin 0 \<or> y e + radius e \<ge> height (passion e)
         then e\<lparr>dy := - dy e\<rparr> else e)"

definition update :: "'g env \<Rightarrow> number \<Rightarrow> 'g env" where
  "update e dt = bounce (advance e dt)"

text \<open>
  The draw callback:
  \<^verbatim>\<open>passion.graphics.cls(2); passion.graphics.circ(x, y, radius, 1);\<close>
  \<^verbatim>\<open>passion.graphics.text(100, 50, 'Welcome to the passion engine!', 15);\<close>
\<close>

definition draw :: "'g env \<Rightarrow> 'g env" where
  "draw e =
     (let p = graphics_cls (passion e) (Fin 2);
          p = graphics_circ p (x e) (y e) (radius e) (Fin 1);
          p = graphics_text p (Fin 100) (Fin 50) ''Welcome to the passion engine!'' (Fin 15)
      in e\<lparr>passion := p\<rparr>)"

text \<open>What the program sends to the engine between two of its states: the calls added.\<close>

definition issued :: "'g passion \<Rightarrow> 'g passion \<Rightarrow> call list" where
  "issued p p' = drop (length (calls p)) (calls p')"

text \<open>
  What the handler can do to the page beyond its own variables: construct an engine on
  an element, call into an engine, and show a diagnostic to the user (a console
  message, an alert). The source has no statement of the last kind.
\<close>

datatype host_event = Construct element | Engine_call call | Diagnostic string

text \<open>
  What a run of the handler leaves behind: the events in the order they happened, the
  callbacks registered with \<^verbatim>\<open>system.run\<close>, and the scope the callbacks close over. No
  engine, no registration and no scope exist when the body of \<^verbatim>\<open>if (app)\<close> is skipped.
\<close>

record 'g outcome =
  events :: "host_event list"
  registered :: "(('g env \<Rightarrow> number \<Rightarrow> 'g env) \<times> ('g env \<Rightarrow> 'g env)) option"
  scope :: "'g env option"

text \<open>
  The \<^verbatim>\<open>DOMContentLoaded\<close> listener, the arrow function passed to
  \<^verbatim>\<open>document.addEventListener\<close>. The constructor of the engine, \<^verbatim>\<open>new Passion(app)\<close>,
  is engine code and a parameter here, as is the generator behind \<^verbatim>\<open>math.rndi\<close>. The
  events of the second branch are the construction on \<^verbatim>\<open>app\<close> and then every call the
  engine received. The \<^verbatim>\<open>debugger\<close> statement changes no state and the type assertion
  \<^verbatim>\<open>as HTMLCanvasElement | null\<close> does nothing at run time; neither has a counterpart.
\<close>

definition listener ::
  "document \<Rightarrow> (element \<Rightarrow> 'g passion) \<Rightarrow> ('g \<Rightarrow> number \<Rightarrow> number \<Rightarrow> number \<times> 'g) \<Rightarrow> 'g outcome" where
  "listener doc new_Passion rndi =
     (case getElementById doc ''app'' of
        None \<Rightarrow> \<lparr>events = [], registered = None, scope = None\<rparr>
      | Some app \<Rightarrow>
          let p0 = new_Passion app;
              p = system_init p0 (Fin 360) (Fin 240) ''My first, but wonderful game!'';
              radius0 = Fin 16;
              speed0 = Fin 20;
              x0 = Fin 360 / Fin 2;
              y0 = Fin 240 / Fin 2;
              (dx0, p) = math_rndi rndi p (- Fin 5) (Fin 5);
              (dy0, p) = math_rndi rndi p (- Fin 5) (Fin 5);
              (p, loop) = system_run p update draw
          in \<lparr>events = Construct app # map Engine_call (issued p0 p),
              registered = Some loop,
              scope = Some \<lparr>passion = p, radius = radius0, speed = speed0,
                             x = x0, y = y0, dx = dx0, dy = dy0\<rparr>\<rparr>)"

text \<open>The scope the listener leaves, or \<open>None\<close> when it leaves none.\<close>

definition on_DOMContentLoaded ::
  "document \<Rightarrow> (element \<Rightarrow> 'g passion) \<Rightarrow> ('g \<Rightarrow> number \<Rightarrow> number \<Rightarrow> number \<times> 'g) \<Rightarrow> 'g env option" where
  "on_DOMContentLoaded doc new_Passion rndi = scope (listener doc new_Passion rndi)"

text \<open>
  The frame loop is the engine's: it calls the update callback with the elapsed time
  and the draw callback, on its own schedule. A run of the loop is a list of such calls.
\<close>

datatype event = Tick number | Frame

fun frame :: "'g env \<Rightarrow> event \<Rightarrow> 'g env" where
  "frame e (Tick dt) = update e dt"
| "frame e Frame = draw e"

definition frames :: "'g env \<Rightarrow> event list \<Rightarrow> 'g env" where
  "frames e evs = foldl frame e evs"

text \<open>
  Modelled from the spec: the frame loop of the engine, run on the registration that
  \<^verbatim>\<open>system.run\<close> returned. It calls the first callback on a tick and the second on a
  frame.
\<close>

definition run_registered ::
  "('g env \<Rightarrow> number \<Rightarrow> 'g env) \<times> ('g env \<Rightarrow> 'g env) \<Rightarrow> 'g env \<Rightarrow> event list \<Rightarrow> 'g env" where
  "run_registered loop e evs =
     foldl (\<lambda>e ev. case ev of Tick dt \<Rightarrow> fst loop e dt | Frame \<Rightarrow> snd loop e) e evs"

text \<open>An elapsed time that is a finite number, as the frame loop measures it.\<close>

fun finite_time :: "event \<Rightarrow> bool" where
  "finite_time (Tick dt) = is_finite dt"
| "finite_time Frame = True"

text \<open>
  What the spec says of \<^verbatim>\<open>math.rndi(min, max)\<close>: for integer bounds \<open>min \<le> max\<close> it
  returns an integer in \<open>[min, max]\<close>, both ends included.
\<close>

definition rndi_in_range :: "('g \<Rightarrow> number \<Rightarrow> number \<Rightarrow> number \<times> 'g) \<Rightarrow> bool" where
  "rndi_in_range rndi =
     (\<forall>g lo hi. is_integer lo \<and> is_integer hi \<and> lo \<le> hi \<longrightarrow>
        is_integer (fst (rndi g lo hi)) \<and> lo \<le> fst (rndi g lo hi) \<and> fst (rndi g lo hi) \<le> hi)"

fun is_rndi :: "call \<Rightarrow> bool" where
  "is_rndi (Math_rndi lo hi) = True"
| "is_rndi c = False"

subsection \<open>Concrete pages, engines and states\<close>

text \<open>
  The values the scenarios of the spec are run on: a page with the canvas of
  \<^verbatim>\<open>index.html\<close> and a page without it, an engine with the viewport of the program, a
  generator that returns its lower bound, a ball in that viewport, and the number that
  the literal \<^verbatim>\<open>0.1\<close> denotes.
\<close>

definition page :: document where
  "page = [''app'' \<mapsto> Element ''canvas'']"

definition empty_page :: document where
  "empty_page = Map.empty"

definition fresh_engine :: "element \<Rightarrow> nat passion" where
  "fresh_engine el = \<lparr>surface = el, width = Fin 0, height = Fin 0, rng = 0, calls = []\<rparr>"

definition lowest :: "nat \<Rightarrow> number \<Rightarrow> number \<Rightarrow> number \<times> nat" where
  "lowest g lo hi = (lo, Suc g)"

text \<open>A generator that returns 0.\<close>

definition still :: "nat \<Rightarrow> number \<Rightarrow> number \<Rightarrow> number \<times> nat" where
  "still g lo hi = (Fin 0, Suc g)"

definition viewport :: "nat passion" where
  "viewport = \<lparr>surface = Element ''canvas'', width = Fin 360, height = Fin 240,
                rng = 0, calls = []\<rparr>"

definition ball :: "number \<Rightarrow> number \<Rightarrow> number \<Rightarrow> number \<Rightarrow> nat env" where
  "ball px py vx vy =
     \<lparr>passion = viewport, radius = Fin 16, speed = Fin 20, x = px, y = py, dx = vx, dy = vy\<rparr>"

definition tenth :: number where
  "tenth = round_f64 (1 / 10)"

text \<open>
  A velocity no run of the program reaches, but a number all the same: \<open>-2\<^sup>1\<^sup>0\<^sup>2\<^sup>3\<close>, about
  \<open>-8.99e307\<close>.
\<close>

definition huge :: number where
  "huge = Fin (- (2 ^ 1023))"

text \<open>A position is the one it was, up to the sign of a zero.\<close>

definition unmoved :: "number \<Rightarrow> number \<Rightarrow> bool" where
  "unmoved a b = (b = a \<or> (a = NegZero \<and> b = Fin 0))"

text \<open>The variables of a state are binary64 values.\<close>

definition doubles :: "'g env \<Rightarrow> bool" where
  "doubles e = (is_f64 (x e) \<and> is_f64 (y e) \<and> is_f64 (dx e) \<and> is_f64 (dy e))"

section \<open>Facts about numbers\<close>

subsection \<open>The binary exponent\<close>

lemma two_powi_pos: "0 < (2::rat) powi k"
  by simp

lemma two_powi_nat: "0 \<le> k \<Longrightarrow> (2::rat) powi k = of_int (2 ^ nat k)"
  by (simp add: power_int_def)

lemma ilog2_bounds:
  assumes "0 < r"
  shows "2 powi (ilog2 r) \<le> r \<and> r < 2 powi (ilog2 r + 1)"
proof (cases "1 \<le> r")
  case True
  define n where "n = \<lfloor>r\<rfloor>"
  have n1: "1 \<le> n" using True by (simp add: n_def le_floor_iff)
  then have npos: "0 < n" by simp
  have b: "2 ^ nat (bitlen n - 1) \<le> n" "n < 2 ^ nat (bitlen n)"
    using bitlen_bounds[OF npos] by auto
  have bl: "1 \<le> bitlen n" using npos by (simp add: bitlen_alt_def)
  have e: "ilog2 r = bitlen n - 1" using True by (simp add: ilog2_def n_def)
  have "(2::rat) powi (ilog2 r) = of_int (2 ^ nat (bitlen n - 1))"
    using bl by (simp add: e two_powi_nat)
  also have "\<dots> \<le> of_int n" using b(1) by (simp only: of_int_le_iff)
  also have "\<dots> \<le> r" unfolding n_def by linarith
  finally have lo: "2 powi (ilog2 r) \<le> r" .
  have "n + 1 \<le> 2 ^ nat (bitlen n)" using b(2) by simp
  then have "(of_int (n + 1) :: rat) \<le> of_int (2 ^ nat (bitlen n))" by (simp only: of_int_le_iff)
  moreover have "r < of_int (n + 1)" unfolding n_def by linarith
  moreover have "(2::rat) powi (ilog2 r + 1) = of_int (2 ^ nat (bitlen n))"
    using bl by (simp add: e two_powi_nat)
  ultimately have "r < 2 powi (ilog2 r + 1)" by simp
  with lo show ?thesis by simp
next
  case False
  define u where "u = 1 / r"
  define n where "n = \<lceil>u\<rceil>"
  define k where "k = bitlen (n - 1)"
  have u1: "1 < u" using False assms by (simp add: u_def)
  have n2: "2 \<le> n" using u1 unfolding n_def by linarith
  then have npos: "0 < n - 1" by simp
  have b: "2 ^ nat (k - 1) \<le> n - 1" "n - 1 < 2 ^ nat k"
    using bitlen_bounds[OF npos] by (auto simp: k_def)
  have k1: "1 \<le> k" using npos by (simp add: bitlen_alt_def k_def)
  have e: "ilog2 r = - k" using False by (simp add: ilog2_def n_def k_def u_def)
  have "u \<le> of_int n" unfolding n_def by linarith
  also have "n \<le> 2 ^ nat k" using b(2) by simp
  then have "(of_int n :: rat) \<le> of_int (2 ^ nat k)" by (simp only: of_int_le_iff)
  finally have "u \<le> 2 powi k" using k1 by (simp add: two_powi_nat)
  then have lo: "2 powi (- k) \<le> r"
    using assms by (simp add: u_def power_int_minus field_simps)
  have "(of_int (2 ^ nat (k - 1)) :: rat) \<le> of_int (n - 1)" using b(1) by (simp only: of_int_le_iff)
  also have "of_int (n - 1) < u" unfolding n_def by linarith
  finally have "2 powi (k - 1) < u" using k1 by (simp add: two_powi_nat)
  then have "r < 1 / 2 powi (k - 1)"
    using assms two_powi_pos[of "k - 1"] by (simp add: u_def field_simps)
  also have "1 / 2 powi (k - 1) = (2::rat) powi (- (k - 1))"
    by (rule power_int_minus_divide[symmetric])
  finally have "r < 2 powi (- k + 1)" by simp
  with lo show ?thesis by (simp add: e)
qed


lemma two_powi_less_imp: "(2::rat) powi a < 2 powi b \<Longrightarrow> a < b"
  using power_int_increasing[of b a "2::rat"] by (cases "a < b") auto

lemma two_powi_le_imp: "(2::rat) powi a \<le> 2 powi b \<Longrightarrow> a \<le> b"
  using power_int_strict_increasing[of b a "2::rat"] by (cases "a \<le> b") auto

lemma ilog2_unique:
  assumes "0 < r" "2 powi e \<le> r" "r < 2 powi (e + 1)"
  shows "ilog2 r = e"
proof -
  have b: "2 powi (ilog2 r) \<le> r" "r < 2 powi (ilog2 r + 1)"
    using ilog2_bounds[OF assms(1)] by auto
  have "(2::rat) powi e < 2 powi (ilog2 r + 1)" using assms(2) b(2) by simp
  then have 1: "e < ilog2 r + 1" by (rule two_powi_less_imp)
  have "(2::rat) powi (ilog2 r) < 2 powi (e + 1)" using assms(3) b(1) by simp
  then have 2: "ilog2 r < e + 1" by (rule two_powi_less_imp)
  from 1 2 show ?thesis by simp
qed

lemma ilog2_le:
  assumes "0 < r" "r \<le> 2 powi k"
  shows "ilog2 r \<le> k"
proof -
  have "2 powi (ilog2 r) \<le> r" using ilog2_bounds[OF assms(1)] by auto
  then have "(2::rat) powi (ilog2 r) \<le> 2 powi k" using assms(2) by simp
  then show ?thesis by (rule two_powi_le_imp)
qed

lemma ilog2_ge:
  assumes "0 < r" "2 powi k \<le> r"
  shows "k \<le> ilog2 r"
proof -
  have "r < 2 powi (ilog2 r + 1)" using ilog2_bounds[OF assms(1)] by auto
  then have "(2::rat) powi k < 2 powi (ilog2 r + 1)" using assms(2) by simp
  then have "k < ilog2 r + 1" by (rule two_powi_less_imp)
  then show ?thesis by simp
qed


subsection \<open>Rounding\<close>

lemma round_half_even_le: "t \<le> of_int n \<Longrightarrow> round_half_even t \<le> n"
  unfolding round_half_even_def Let_def by (auto; linarith)

lemma round_half_even_ge: "of_int n \<le> t \<Longrightarrow> n \<le> round_half_even t"
  unfolding round_half_even_def Let_def by (auto; linarith)

lemma round_half_even_of_int: "round_half_even (of_int n) = n"
  unfolding round_half_even_def Let_def by simp

lemma round_f64_nonzero:
  assumes "r \<noteq> 0" "q = max (ilog2 \<bar>r\<bar> - 52) (- 1074)"
    "m = round_half_even (r / 2 powi q)" "v = of_int m * 2 powi q"
  shows "round_f64 r =
     (if 2 ^ 1024 \<le> \<bar>v\<bar> then signed_inf (r < 0)
      else if m = 0 then signed_zero (r < 0) else Fin v)"
  unfolding round_f64_def Let_def assms(2-4) using assms(1) by (simp only: if_False)

lemma round_f64_neg:
  assumes "r < 0"
  shows "round_f64 r \<le> Fin 0"
proof -
  define q where "q = max (ilog2 \<bar>r\<bar> - 52) (- 1074)"
  define m where "m = round_half_even (r / 2 powi q)"
  define v where "v = of_int m * (2::rat) powi q"
  have R: "round_f64 r =
     (if 2 ^ 1024 \<le> \<bar>v\<bar> then signed_inf (r < 0)
      else if m = 0 then signed_zero (r < 0) else Fin v)"
    by (rule round_f64_nonzero[OF _ q_def m_def v_def]) (use assms in simp)
  have "r / 2 powi q \<le> of_int 0" using assms by (simp add: divide_le_0_iff)
  then have m0: "m \<le> 0" unfolding m_def by (rule round_half_even_le)
  then have v0: "v \<le> 0" by (simp add: v_def mult_le_0_iff)
  show ?thesis
    unfolding R using assms v0
    by (simp add: signed_inf_def signed_zero_def less_eq_number_def less_number_def)
qed

lemma round_f64_le_pow2:
  assumes "0 < s" "s \<le> 2 powi k" "- 1074 \<le> k" "k \<le> 1023"
  shows "\<exists>v. round_f64 s = Fin v \<and> 0 \<le> v \<and> v \<le> 2 powi k"
proof -
  define q where "q = max (ilog2 \<bar>s\<bar> - 52) (- 1074)"
  define m where "m = round_half_even (s / 2 powi q)"
  define v where "v = of_int m * (2::rat) powi q"
  have R: "round_f64 s =
     (if 2 ^ 1024 \<le> \<bar>v\<bar> then signed_inf (s < 0)
      else if m = 0 then signed_zero (s < 0) else Fin v)"
    by (rule round_f64_nonzero[OF _ q_def m_def v_def]) (use assms(1) in simp)
  have "ilog2 s \<le> k" using assms(1,2) by (rule ilog2_le)
  then have qk: "q \<le> k" using assms(3) assms(1) by (simp add: q_def)
  have pq: "0 < (2::rat) powi q" by simp
  have split: "(2::rat) powi k = 2 powi (k - q) * 2 powi q"
    using power_int_add[of "2::rat" "k - q" q] by simp
  have nat: "(2::rat) powi (k - q) = of_int (2 ^ nat (k - q))"
    using qk by (simp add: two_powi_nat)
  have "s / 2 powi q \<le> 2 powi (k - q)"
    using assms(2) pq split by (simp add: field_simps)
  then have "s / 2 powi q \<le> of_int (2 ^ nat (k - q))" by (simp only: nat)
  then have mle: "m \<le> 2 ^ nat (k - q)" unfolding m_def by (rule round_half_even_le)
  have "of_int 0 \<le> s / 2 powi q" using assms(1) by simp
  then have mge: "0 \<le> m" unfolding m_def by (rule round_half_even_ge)
  have v0: "0 \<le> v" using mge by (simp add: v_def)
  have "(of_int m :: rat) \<le> of_int (2 ^ nat (k - q))" using mle by (simp only: of_int_le_iff)
  then have "v \<le> 2 powi (k - q) * 2 powi q"
    unfolding v_def nat using pq by (simp add: mult_right_mono)
  then have vk: "v \<le> 2 powi k" using split by simp
  have "(2::rat) powi k \<le> 2 powi 1023" using assms(4) by (intro power_int_increasing) auto
  also have "(2::rat) powi 1023 < 2 ^ 1024" by simp
  finally have "\<not> 2 ^ 1024 \<le> \<bar>v\<bar>" using v0 vk by simp
  then have "round_f64 s = (if m = 0 then Fin 0 else Fin v)"
    unfolding R using assms(1) by (simp add: signed_zero_def)
  then show ?thesis using v0 vk by (auto simp: v_def)
qed

lemma round_f64_overflow:
  assumes "2 ^ 1024 \<le> \<bar>r\<bar>"
  shows "round_f64 r = signed_inf (r < 0)"
proof -
  define e where "e = ilog2 \<bar>r\<bar>"
  define q where "q = max (e - 52) (- 1074)"
  define m where "m = round_half_even (r / 2 powi q)"
  define v where "v = of_int m * (2::rat) powi q"
  have "(0::rat) < 2 ^ 1024" by simp
  then have rpos: "0 < \<bar>r\<bar>" using assms by (rule less_le_trans)
  then have rn: "r \<noteq> 0" by auto
  have R: "round_f64 r =
     (if 2 ^ 1024 \<le> \<bar>v\<bar> then signed_inf (r < 0)
      else if m = 0 then signed_zero (r < 0) else Fin v)"
    by (rule round_f64_nonzero[OF rn _ m_def v_def]) (simp add: q_def e_def)
  have "(2::rat) powi 1024 \<le> \<bar>r\<bar>" using assms by simp
  then have e: "1024 \<le> e" unfolding e_def using rpos by (intro ilog2_ge) auto
  then have q: "q = e - 52" by (simp add: q_def)
  have lo: "2 powi e \<le> \<bar>r\<bar>" using ilog2_bounds[OF rpos] by (simp add: e_def)
  have pq: "0 < (2::rat) powi q" by simp
  have split: "(2::rat) powi e = 2 powi 52 * 2 powi q"
    using power_int_add[of "2::rat" 52 q] by (simp add: q)
  have t: "of_int (2 ^ 52) \<le> \<bar>r\<bar> / 2 powi q"
    using lo pq split by (simp add: field_simps)
  have "2 ^ 52 \<le> \<bar>m\<bar>"
  proof (cases "r < 0")
    case True
    then have "r / 2 powi q \<le> of_int (- (2 ^ 52))" using t pq by (simp add: field_simps)
    then have "m \<le> - (2 ^ 52)" unfolding m_def by (rule round_half_even_le)
    then show ?thesis by simp
  next
    case False
    then have "of_int (2 ^ 52) \<le> r / 2 powi q" using t by simp
    then have "2 ^ 52 \<le> m" unfolding m_def by (rule round_half_even_ge)
    then show ?thesis by simp
  qed
  then have "(of_int (2 ^ 52) :: rat) \<le> of_int \<bar>m\<bar>" by (simp only: of_int_le_iff)
  then have "2 powi 52 * 2 powi q \<le> \<bar>of_int m\<bar> * (2::rat) powi q"
    using pq by (simp add: mult_right_mono)
  then have "2 powi e \<le> \<bar>v\<bar>" using split pq by (simp add: v_def abs_mult)
  moreover have "(2::rat) powi 1024 \<le> 2 powi e" using e by (intro power_int_increasing) auto
  ultimately have "2 ^ 1024 \<le> \<bar>v\<bar>" by simp
  then show ?thesis unfolding R by simp
qed

lemma round_f64_exact:
  assumes "\<bar>m\<bar> < 2 ^ 53" "- 1074 \<le> q" "\<bar>of_int m * (2::rat) powi q\<bar> < 2 ^ 1024"
  shows "round_f64 (of_int m * 2 powi q) = Fin (of_int m * 2 powi q)"
proof (cases "m = 0")
  case True
  then show ?thesis by (simp add: round_f64_def)
next
  case False
  define r where "r = of_int m * (2::rat) powi q"
  define e where "e = ilog2 \<bar>r\<bar>"
  define q' where "q' = max (e - 52) (- 1074)"
  define m' where "m' = round_half_even (r / 2 powi q')"
  define v where "v = of_int m' * (2::rat) powi q'"
  have pq: "0 < (2::rat) powi q" by simp
  have rn: "r \<noteq> 0" using False by (simp add: r_def)
  then have rpos: "0 < \<bar>r\<bar>" by simp
  have R: "round_f64 r =
     (if 2 ^ 1024 \<le> \<bar>v\<bar> then signed_inf (r < 0)
      else if m' = 0 then signed_zero (r < 0) else Fin v)"
    by (rule round_f64_nonzero[OF rn _ m'_def v_def]) (simp add: q'_def e_def)
  have "(of_int \<bar>m\<bar> :: rat) < of_int (2 ^ 53)" using assms(1) by (simp only: of_int_less_iff)
  then have "\<bar>r\<bar> < 2 powi 53 * 2 powi q"
    using pq by (simp add: r_def abs_mult)
  also have "\<dots> = 2 powi (53 + q)" using power_int_add[of "2::rat" 53 q] by simp
  finally have up: "\<bar>r\<bar> < 2 powi (53 + q)" .
  have "2 powi e \<le> \<bar>r\<bar>" using ilog2_bounds[OF rpos] by (simp add: e_def)
  then have "(2::rat) powi e < 2 powi (53 + q)" using up by simp
  then have "e < 53 + q" by (rule two_powi_less_imp)
  then have qq: "q' \<le> q" using assms(2) by (simp add: q'_def)
  have split: "(2::rat) powi q = 2 powi (q - q') * 2 powi q'"
    using power_int_add[of "2::rat" "q - q'" q'] by simp
  have nat: "(2::rat) powi (q - q') = of_int (2 ^ nat (q - q'))"
    using qq by (simp add: two_powi_nat)
  have "r / 2 powi q' = of_int m * 2 powi (q - q')"
    by (simp add: r_def split)
  also have "\<dots> = of_int (m * 2 ^ nat (q - q'))" by (simp add: nat)
  finally have t: "r / 2 powi q' = of_int (m * 2 ^ nat (q - q'))" .
  have m': "m' = m * 2 ^ nat (q - q')"
    unfolding m'_def by (simp only: t round_half_even_of_int)
  have "of_int m' = r / 2 powi q'" by (simp only: t m')
  then have v: "v = r" by (simp add: v_def)
  have "m' \<noteq> 0" using False by (simp add: m')
  then have "round_f64 r = Fin r"
    unfolding R v using assms(3) by (simp add: r_def[symmetric])
  then show ?thesis by (simp add: r_def)
qed

lemma round_half_even_minus: "round_half_even (- t) = - round_half_even t"
proof (cases "of_int \<lfloor>t\<rfloor> = t")
  case True
  then obtain n where "t = of_int n" by metis
  then have "- t = of_int (- n)" by simp
  then show ?thesis using \<open>t = of_int n\<close> by (simp only: round_half_even_of_int)
next
  case False
  then have "of_int \<lfloor>t\<rfloor> < t" by linarith
  then have fl: "\<lfloor>- t\<rfloor> = - \<lfloor>t\<rfloor> - 1" by linarith
  show ?thesis
    unfolding round_half_even_def Let_def fl by (auto simp: field_simps)
qed

lemma uminus_signed_inf: "- signed_inf s = signed_inf (\<not> s)"
  by (simp add: signed_inf_def uminus_number_def)

lemma uminus_signed_zero: "- signed_zero s = signed_zero (\<not> s)"
  by (simp add: signed_zero_def uminus_number_def)

lemma round_f64_minus:
  assumes "r \<noteq> 0"
  shows "round_f64 (- r) = - round_f64 r"
proof -
  define q where "q = max (ilog2 \<bar>r\<bar> - 52) (- 1074)"
  define m where "m = round_half_even (r / 2 powi q)"
  define v where "v = of_int m * (2::rat) powi q"
  have R: "round_f64 r =
     (if 2 ^ 1024 \<le> \<bar>v\<bar> then signed_inf (r < 0)
      else if m = 0 then signed_zero (r < 0) else Fin v)"
    by (rule round_f64_nonzero[OF assms q_def m_def v_def])
  have q': "q = max (ilog2 \<bar>- r\<bar> - 52) (- 1074)" by (simp add: q_def)
  have m': "- m = round_half_even (- r / 2 powi q)"
    by (simp add: m_def round_half_even_minus)
  have v': "- v = of_int (- m) * (2::rat) powi q" by (simp add: v_def)
  have R': "round_f64 (- r) =
     (if 2 ^ 1024 \<le> \<bar>- v\<bar> then signed_inf (- r < 0)
      else if - m = 0 then signed_zero (- r < 0) else Fin (- v))"
    by (rule round_f64_nonzero[OF _ q' m' v']) (use assms in simp)
  have vm: "v = 0 \<longleftrightarrow> m = 0" by (simp add: v_def)
  have s: "(- r < 0) = (\<not> r < 0)" using assms by auto
  show ?thesis
    unfolding R R' s
    by (simp add: uminus_signed_inf uminus_signed_zero vm)
      (simp add: uminus_number_def vm)
qed

subsection \<open>Signs, zeros and bounds of results\<close>

lemma number_less_imp_le: "a < b \<Longrightarrow> a \<le> (b::number)"
  by (cases a; cases b) (auto simp: less_eq_number_def less_number_def split: if_splits)

lemma number_le_0_le_2: "a \<le> Fin 0 \<Longrightarrow> a \<le> Fin 2"
  by (cases a) (auto simp: less_eq_number_def less_number_def split: if_splits)

lemma number_le_Fin_cases:
  "a \<le> Fin c \<longleftrightarrow> a = NegInf \<or> (a = NegZero \<and> 0 \<le> c) \<or> (\<exists>r. a = Fin r \<and> r \<le> c)"
  by (cases a) (auto simp: less_eq_number_def less_number_def)

lemma number_ge_Fin_cases:
  "Fin c \<le> a \<longleftrightarrow> a = PosInf \<or> (a = NegZero \<and> c \<le> 0) \<or> (\<exists>r. a = Fin r \<and> c \<le> r)"
  by (cases a) (auto simp: less_eq_number_def less_number_def)

lemma times_nonneg_nonpos:
  assumes "Fin 0 \<le> a" "b \<le> Fin 0" "a * b \<noteq> NaN"
  shows "a * b \<le> Fin 0"
proof (cases "is_inf a \<or> is_inf b \<or> is_zero a \<or> is_zero b")
  case True
  then show ?thesis
    using assms
    by (cases a; cases b)
      (auto simp: times_number_def signed_inf_def signed_zero_def less_eq_number_def
        less_number_def split: if_splits)
next
  case False
  moreover have "a \<noteq> NaN" "b \<noteq> NaN" using assms(1,2) by (auto simp: less_eq_number_def)
  ultimately obtain r s where ab: "a = Fin r" "b = Fin s" "r \<noteq> 0" "s \<noteq> 0"
    by (cases a; cases b) auto
  then have "0 < r" "s < 0" using assms(1,2) by (auto simp: less_eq_number_def less_number_def)
  then have "r * s < 0" by (simp add: mult_pos_neg)
  then have "round_f64 (r * s) \<le> Fin 0" by (rule round_f64_neg)
  then show ?thesis using ab by (simp add: times_number_def)
qed

lemma times_nonpos_nonneg:
  assumes "a \<le> Fin 0" "Fin 0 \<le> b" "a * b \<noteq> NaN"
  shows "a * b \<le> Fin 0"
proof (cases "is_inf a \<or> is_inf b \<or> is_zero a \<or> is_zero b")
  case True
  then show ?thesis
    using assms
    by (cases a; cases b)
      (auto simp: times_number_def signed_inf_def signed_zero_def less_eq_number_def
        less_number_def split: if_splits)
next
  case False
  moreover have "a \<noteq> NaN" "b \<noteq> NaN" using assms(1,2) by (auto simp: less_eq_number_def)
  ultimately obtain r s where ab: "a = Fin r" "b = Fin s" "r \<noteq> 0" "s \<noteq> 0"
    by (cases a; cases b) auto
  then have "r < 0" "0 < s" using assms(1,2) by (auto simp: less_eq_number_def less_number_def)
  then have "r * s < 0" by (simp add: mult_neg_pos)
  then have "round_f64 (r * s) \<le> Fin 0" by (rule round_f64_neg)
  then show ?thesis using ab by (simp add: times_number_def)
qed

lemma times_NaN_left: "NaN * b = NaN"
  by (simp add: times_number_def)

lemma round_f64_le_2:
  assumes "s \<le> 2"
  shows "round_f64 s \<le> Fin 2"
proof -
  consider "s < 0" | "s = 0" | "0 < s" by linarith
  then show ?thesis
  proof cases
    case 1
    then show ?thesis by (intro number_le_0_le_2 round_f64_neg)
  next
    case 2
    then show ?thesis by (simp add: round_f64_def less_eq_number_def less_number_def)
  next
    case 3
    have "s \<le> 2 powi 1" using assms by simp
    from round_f64_le_pow2[OF 3 this] obtain v where "round_f64 s = Fin v" "v \<le> 2 powi 1"
      by auto
    then show ?thesis by (simp add: less_eq_number_def less_number_def)
  qed
qed

lemma two_plus_nonpos:
  assumes "p \<le> Fin 0"
  shows "Fin 2 + p \<le> Fin 2"
proof -
  from assms consider "p = NegInf" | "p = NegZero" | r where "p = Fin r" "r \<le> 0"
    by (auto simp: number_le_Fin_cases)
  then show ?thesis
  proof cases
    case 1
    then show ?thesis by (simp add: plus_number_def less_eq_number_def less_number_def)
  next
    case 2
    have "round_f64 (2 + 0) \<le> Fin 2" by (rule round_f64_le_2) simp
    then show ?thesis using 2 by (simp add: plus_number_def)
  next
    case 3
    have "round_f64 (2 + r) \<le> Fin 2" using 3(2) by (intro round_f64_le_2) simp
    then show ?thesis using 3 by (simp add: plus_number_def)
  qed
qed

lemma minus_16_nonpos:
  assumes "a \<le> Fin 2"
  shows "a - Fin 16 \<le> Fin 0"
proof -
  have n: "- Fin 16 = Fin (- 16)" by (simp add: uminus_number_def)
  from assms consider "a = NegInf" | "a = NegZero" | r where "a = Fin r" "r \<le> 2"
    by (auto simp: number_le_Fin_cases)
  then show ?thesis
  proof cases
    case 1
    then show ?thesis
      by (simp add: minus_number_def n plus_number_def less_eq_number_def less_number_def)
  next
    case 2
    have "round_f64 (0 + (- 16)) \<le> Fin 0" by (rule round_f64_neg) simp
    then show ?thesis using 2 by (simp add: minus_number_def n plus_number_def)
  next
    case 3
    have "round_f64 (r + (- 16)) \<le> Fin 0" using 3(2) by (intro round_f64_neg) simp
    then show ?thesis using 3 by (simp add: minus_number_def n plus_number_def)
  qed
qed

lemma left_edge_reached:
  assumes "Fin 0 \<le> s" "d < Fin 0" "Fin 0 \<le> t" "s * d * t \<noteq> NaN"
  shows "Fin 2 + s * d * t - Fin 16 \<le> Fin 0"
proof -
  have sd: "s * d \<noteq> NaN" using assms(4) times_NaN_left by metis
  have "d \<le> Fin 0" using assms(2) by (rule number_less_imp_le)
  with assms(1) have "s * d \<le> Fin 0" using sd by (rule times_nonneg_nonpos)
  then have "s * d * t \<le> Fin 0" using assms(3,4) by (rule times_nonpos_nonneg)
  then have "Fin 2 + s * d * t \<le> Fin 2" by (rule two_plus_nonpos)
  then show ?thesis by (rule minus_16_nonpos)
qed

lemma times_minus_one:
  assumes "is_f64 a"
  shows "Fin (- 1) * a = - a"
proof (cases a)
  case (Fin r)
  show ?thesis
  proof (cases "r = 0")
    case True
    then show ?thesis using Fin by (simp add: times_number_def signed_zero_def uminus_number_def)
  next
    case False
    have "round_f64 (- r) = - Fin r" using assms Fin round_f64_minus[OF False] by simp
    then show ?thesis using Fin False by (simp add: times_number_def)
  qed
qed (simp_all add: times_number_def signed_zero_def signed_inf_def uminus_number_def)

lemma abs_uminus_number: "\<bar>- a\<bar> = \<bar>a :: number\<bar>"
  by (cases a) (simp_all add: abs_number_def uminus_number_def)

lemma is_zero_uminus: "is_zero (- a) = is_zero a"
  by (cases a) (simp_all add: uminus_number_def)

lemma is_zero_abs: "is_zero a \<longleftrightarrow> \<bar>a\<bar> = Fin 0"
  by (cases a) (simp_all add: abs_number_def)

lemma times_zero_right: "is_finite a \<Longrightarrow> is_zero b \<Longrightarrow> is_zero (a * b)"
  by (cases a; cases b) (simp_all add: times_number_def signed_zero_def)

lemma times_zero_left: "is_zero a \<Longrightarrow> is_finite b \<Longrightarrow> is_zero (a * b)"
  by (cases a; cases b) (simp_all add: times_number_def signed_zero_def)

lemma plus_zero:
  assumes "is_f64 a" "is_zero z"
  shows "a + z = a \<or> (a = NegZero \<and> a + z = Fin 0)"
  using assms
  by (cases a; cases z) (simp_all add: plus_number_def round_f64_def)

subsection \<open>Evaluating the arithmetic on numerals\<close>

lemma floor_rat_numeral_div: "\<lfloor>numeral a / numeral b :: rat\<rfloor> = numeral a div numeral b"
  by (metis floor_divide_of_int_eq of_int_numeral)

lemma floor_rat_neg_numeral_div:
  "\<lfloor>- (numeral a / numeral b) :: rat\<rfloor> = - numeral a div numeral b"
  by (metis divide_minus_left floor_divide_of_int_eq of_int_neg_numeral of_int_numeral)

lemma ceiling_rat_numeral_div:
  "\<lceil>numeral a / numeral b :: rat\<rceil> = - (- numeral a div numeral b)"
  using ceiling_divide_eq_div[of "numeral a" "numeral b", where 'a = rat] by simp

lemmas number_eval =
  plus_number_def minus_number_def times_number_def uminus_number_def divide_number_def
  less_number_def less_eq_number_def round_f64_def ilog2_def round_half_even_def
  compute_bitlen Let_def power_int_minus signed_zero_def signed_inf_def
  floor_rat_numeral_div floor_rat_neg_numeral_div ceiling_rat_numeral_div

lemma tenth_value: "tenth = Fin (3602879701896397 / 36028797018963968)"
  by (simp add: tenth_def number_eval)

lemma is_finite_tenth: "is_finite tenth"
  by (simp add: tenth_value)

lemma round_half_even_nearest: "\<bar>of_int (round_half_even t) - t\<bar> \<le> 1 / 2"
proof -
  define f where "f = \<lfloor>t\<rfloor>"
  have b: "of_int f \<le> t" "t < of_int f + 1" unfolding f_def by linarith+
  show ?thesis
  proof (cases "t - of_int f < 1 / 2")
    case True
    then have "round_half_even t = f" by (simp add: round_half_even_def Let_def f_def)
    then show ?thesis using b True by (simp add: abs_if)
  next
    case False
    show ?thesis
    proof (cases "1 / 2 < t - of_int f")
      case True
      then have "round_half_even t = f + 1"
        using False by (simp add: round_half_even_def Let_def f_def)
      then show ?thesis using b True by (simp add: abs_if)
    next
      case h: False
      then have "t - of_int f = 1 / 2" using False by simp
      moreover have "round_half_even t = f \<or> round_half_even t = f + 1"
        by (simp add: round_half_even_def Let_def f_def)
      ultimately show ?thesis by (auto simp: abs_if)
    qed
  qed
qed

lemma tenth_plus_fifth: "tenth + round_f64 (2 / 10) \<noteq> round_f64 (3 / 10)"
  by (simp add: tenth_value number_eval)

lemma round_f64_not_NaN: "round_f64 r \<noteq> NaN"
  by (simp add: round_f64_def Let_def signed_inf_def signed_zero_def)

subsection \<open>Results are binary64 values\<close>

lemma round_f64_error:
  assumes "round_f64 r = Fin v"
  shows "\<bar>v - r\<bar> \<le> 2 powi (max (ilog2 \<bar>r\<bar> - 52) (- 1074)) / 2"
proof (cases "r = 0")
  case True
  then show ?thesis using assms by (simp add: round_f64_def)
next
  case False
  define q where "q = max (ilog2 \<bar>r\<bar> - 52) (- 1074)"
  define m where "m = round_half_even (r / 2 powi q)"
  define w where "w = of_int m * (2::rat) powi q"
  have R: "round_f64 r =
     (if 2 ^ 1024 \<le> \<bar>w\<bar> then signed_inf (r < 0)
      else if m = 0 then signed_zero (r < 0) else Fin w)"
    by (rule round_f64_nonzero[OF False q_def m_def w_def])
  have pq: "0 < (2::rat) powi q" by simp
  have "v = w"
    using assms unfolding R
    by (auto simp: signed_inf_def signed_zero_def w_def split: if_splits)
  have h: "\<bar>of_int m - r / 2 powi q\<bar> \<le> 1 / 2"
    unfolding m_def by (rule round_half_even_nearest)
  have "(of_int m - r / 2 powi q) * 2 powi q = w - r"
    using pq by (simp add: w_def field_simps)
  then have "\<bar>w - r\<bar> = \<bar>of_int m - r / 2 powi q\<bar> * \<bar>2 powi q\<bar>"
    by (simp only: abs_mult[symmetric])
  also have "\<bar>(2::rat) powi q\<bar> = 2 powi q" using pq by simp
  also have "\<bar>of_int m - r / 2 powi q\<bar> * 2 powi q \<le> 1 / 2 * 2 powi q"
    using h pq by (intro mult_right_mono) simp_all
  finally have "\<bar>w - r\<bar> \<le> 2 powi q / 2" by simp
  then show ?thesis using \<open>v = w\<close> by (simp only: q_def)
qed

lemma round_f64_is_f64: "is_f64 (round_f64 r)"
proof (cases "r = 0")
  case True
  then show ?thesis by (simp add: round_f64_def)
next
  case False
  define e where "e = ilog2 \<bar>r\<bar>"
  define q where "q = max (e - 52) (- 1074)"
  define m where "m = round_half_even (r / 2 powi q)"
  define w where "w = of_int m * (2::rat) powi q"
  have R: "round_f64 r =
     (if 2 ^ 1024 \<le> \<bar>w\<bar> then signed_inf (r < 0)
      else if m = 0 then signed_zero (r < 0) else Fin w)"
    by (rule round_f64_nonzero[OF False _ m_def w_def]) (simp add: q_def e_def)
  have rpos: "0 < \<bar>r\<bar>" using False by simp
  have pq: "0 < (2::rat) powi q" by simp
  have q1: "- 1074 \<le> q" by (simp add: q_def)
  have "e + 1 - q \<le> 53" by (simp add: q_def)
  then have "(2::rat) powi (e + 1 - q) \<le> 2 powi 53" by (intro power_int_increasing) auto
  moreover have "\<bar>r\<bar> < 2 powi (e + 1)" using ilog2_bounds[OF rpos] by (simp add: e_def)
  then have "\<bar>r\<bar> / 2 powi q < 2 powi (e + 1) / 2 powi q"
    using pq by (simp add: divide_strict_right_mono)
  then have "\<bar>r\<bar> / 2 powi q < 2 powi (e + 1 - q)"
    by (simp add: power_int_diff)
  ultimately have t: "\<bar>r / 2 powi q\<bar> \<le> of_int (2 ^ 53)" using pq by (simp add: abs_divide)
  have "r / 2 powi q \<le> \<bar>r / 2 powi q\<bar>" "- \<bar>r / 2 powi q\<bar> \<le> r / 2 powi q"
    by linarith+
  with t have t2: "r / 2 powi q \<le> of_int (2 ^ 53)" "of_int (- (2 ^ 53)) \<le> r / 2 powi q"
    by simp_all
  have "m \<le> 2 ^ 53" unfolding m_def using t2(1) by (rule round_half_even_le)
  moreover have "- (2 ^ 53) \<le> m" unfolding m_def using t2(2) by (rule round_half_even_ge)
  ultimately have mb: "\<bar>m\<bar> \<le> 2 ^ 53" by simp
  show ?thesis
  proof (cases "2 ^ 1024 \<le> \<bar>w\<bar> \<or> m = 0")
    case True
    then show ?thesis unfolding R by (auto simp: signed_inf_def signed_zero_def round_f64_def)
  next
    case F: False
    then have wb: "\<bar>w\<bar> < 2 ^ 1024" by simp
    have "round_f64 w = Fin w"
    proof (cases "\<bar>m\<bar> < 2 ^ 53")
      case True
      from round_f64_exact[OF True q1] wb show ?thesis by (simp add: w_def)
    next
      case False
      then have "\<bar>m\<bar> = 2 ^ 53" using mb by simp
      then consider "m = 2 ^ 53" | "m = - (2 ^ 53)" by (auto simp: abs_if split: if_splits)
      then obtain k where k: "m = k * 2" "\<bar>k\<bar> < 2 ^ 53"
      proof cases
        case 1
        have "m = 2 ^ 52 * 2" "\<bar>2 ^ 52 :: int\<bar> < 2 ^ 53" by (simp_all add: 1)
        then show ?thesis by (rule that)
      next
        case 2
        have "m = - (2 ^ 52) * 2" "\<bar>- (2 ^ 52) :: int\<bar> < 2 ^ 53" by (simp_all add: 2)
        then show ?thesis by (rule that)
      qed
      have "(2::rat) powi (q + 1) = 2 powi q * 2"
        using power_int_add[of "2::rat" q 1] by simp
      then have w': "w = of_int k * 2 powi (q + 1)" by (simp add: w_def k(1))
      have "- 1074 \<le> q + 1" using q1 by simp
      from round_f64_exact[OF k(2) this] wb show ?thesis by (simp add: w')
    qed
    then show ?thesis using F unfolding R by simp
  qed
qed

lemma round_f64_zero: "round_f64 0 = Fin 0"
  by (simp add: round_f64_def)

lemma is_f64_uminus: "is_f64 a \<Longrightarrow> is_f64 (- a)"
proof (cases a)
  case (Fin r)
  assume "is_f64 a"
  then show ?thesis
    using Fin round_f64_minus[of r] by (cases "r = 0") (simp_all add: uminus_number_def)
qed (simp_all add: uminus_number_def round_f64_zero)

lemma is_f64_signed: "is_f64 (signed_zero s)" "is_f64 (signed_inf s)"
  by (simp_all add: signed_zero_def signed_inf_def round_f64_zero)

lemma is_f64_plus: "is_f64 a \<Longrightarrow> is_f64 b \<Longrightarrow> is_f64 (a + b)"
  by (cases a; cases b) (simp_all add: plus_number_def round_f64_is_f64)

lemma is_f64_minus: "is_f64 a \<Longrightarrow> is_f64 b \<Longrightarrow> is_f64 (a - b)"
  by (simp add: minus_number_def is_f64_plus is_f64_uminus)

lemma is_f64_times: "is_f64 (a * b)"
  by (simp add: times_number_def round_f64_is_f64 is_f64_signed)

lemma is_f64_divide: "is_f64 (a / b)"
  by (simp add: divide_number_def round_f64_is_f64 is_f64_signed)


lemma times_finite_not_NaN: "is_finite a \<Longrightarrow> is_finite b \<Longrightarrow> a * b \<noteq> NaN"
  by (cases a; cases b) (simp_all add: times_number_def signed_zero_def round_f64_not_NaN)

lemma round_f64_small_finite:
  assumes "\<bar>r\<bar> \<le> 2 powi k" "- 1074 \<le> k" "k \<le> 1023"
  shows "is_finite (round_f64 r)"
proof -
  consider "r = 0" | "0 < r" | "r < 0" by linarith
  then show ?thesis
  proof cases
    case 1
    then show ?thesis by (simp add: round_f64_zero)
  next
    case 2
    then have "r \<le> 2 powi k" using assms(1) by simp
    from round_f64_le_pow2[OF 2 this assms(2,3)] show ?thesis by auto
  next
    case 3
    then have p: "0 < - r" "- r \<le> 2 powi k" using assms(1) by simp_all
    from round_f64_le_pow2[OF p assms(2,3)] obtain v where v: "round_f64 (- r) = Fin v" by auto
    have "round_f64 r = - round_f64 (- r)" using round_f64_minus[of "- r"] 3 by simp
    then show ?thesis by (simp add: v uminus_number_def)
  qed
qed

lemma program_speed_times_velocity:
  assumes "- 5 \<le> d" "d \<le> 5"
  shows "is_finite (Fin 20 * Fin d)"
proof (cases "d = 0")
  case True
  then show ?thesis by (simp add: times_number_def signed_zero_def)
next
  case False
  have "\<bar>20 * d\<bar> \<le> 2 powi 7" using assms by (simp add: abs_le_iff)
  then have "is_finite (round_f64 (20 * d))" by (rule round_f64_small_finite) simp_all
  then show ?thesis using False by (simp add: times_number_def)
qed

lemma program_product_is_number:
  assumes "- 5 \<le> d" "d \<le> 5" "is_finite t"
  shows "Fin 20 * Fin d * t \<noteq> NaN"
  using program_speed_times_velocity[OF assms(1,2)] assms(3) by (rule times_finite_not_NaN)

lemma known_values:
  "Fin 1 / Fin 0 = PosInf"
  "Fin (- 1) / Fin 0 = NegInf"
  "Fin 0 / Fin 0 = NaN"
  "Fin 1 / NegZero = NegInf"
  "PosInf - PosInf = NaN"
  "Fin 0 * Fin (- 5) = NegZero"
  "Fin 9007199254740992 + Fin 1 = Fin 9007199254740992"
  "Fin 1 / Fin 3 = Fin (6004799503160661 / 18014398509481984)"
  by (simp_all add: number_eval)

lemma known_comparisons:
  "strict_eq NegZero (Fin 0)" "\<not> strict_eq NaN NaN" "\<not> NaN \<le> NaN" "NegZero \<le> Fin 0"
  "\<not> NegZero < Fin 0" "NegInf < Fin 0" "Fin 0 < PosInf"
  by (simp_all add: strict_eq_def less_number_def less_eq_number_def)


subsection \<open>The numbers of the scenarios\<close>

lemma scenario_x: "Fin 180 + Fin 20 * Fin 3 * tenth = Fin 186"
  by (simp add: tenth_value number_eval)

lemma scenario_y: "Fin 120 + Fin 20 * Fin (- 2) * tenth = Fin 116"
  by (simp add: tenth_value number_eval)

lemma scenario_inside:
  "\<not> Fin 186 - Fin 16 \<le> Fin 0" "\<not> Fin 360 \<le> Fin 186 + Fin 16"
  "\<not> Fin 116 - Fin 16 \<le> Fin 0" "\<not> Fin 240 \<le> Fin 116 + Fin 16"
  by (simp_all add: number_eval)

lemma left_move: "Fin 2 + Fin 20 * Fin (- 3) * tenth = Fin (- 4)"
  by (simp add: tenth_value number_eval)

lemma no_move: "Fin 120 + Fin 20 * Fin 0 * tenth = Fin 120"
  by (simp add: tenth_value number_eval)

lemma left_edge: "Fin (- 4) - Fin 16 \<le> Fin 0"
  by (simp add: number_eval)

lemma inside_y: "\<not> Fin 120 - Fin 16 \<le> Fin 0" "\<not> Fin 240 \<le> Fin 120 + Fin 16"
  by (simp_all add: number_eval)

lemma is_f64_small: "is_f64 (Fin (- 3))" "is_f64 (Fin 0)" "is_f64 (Fin 3)" "is_f64 (Fin 180)" "is_f64 (Fin 120)"
  by (simp_all add: number_eval)

lemma left_fast: "Fin 20 * Fin (- 5) * tenth = Fin (- 10)" "Fin 2 + Fin (- 10) = Fin (- 8)"
  "Fin (- 8) - Fin 16 \<le> Fin 0"
  by (simp_all add: tenth_value number_eval)

lemma huge_overflows: "Fin 20 * huge = NegInf"
proof -
  have "round_f64 (20 * - (2 ^ 1023)) = signed_inf (20 * - (2 ^ 1023) < (0::rat))"
    by (rule round_f64_overflow) simp
  then show ?thesis by (simp add: huge_def times_number_def signed_inf_def)
qed

lemma huge_is_f64: "is_f64 huge"
  using round_f64_exact[of "- 1" 1023] by (simp add: huge_def)

lemma huge_negative: "huge < Fin 0" "- huge \<noteq> huge"
  by (simp_all add: huge_def less_number_def uminus_number_def)

lemma zero_times_infinity: "Fin 20 * Fin 0 * PosInf = NaN"
  by (simp add: times_number_def signed_zero_def)

section \<open>Facts about the program\<close>

lemma half_extents: "Fin 360 / Fin 2 = Fin 180" "Fin 240 / Fin 2 = Fin 120"
  by (simp_all add: number_eval)

lemma minus_five: "- Fin 5 = Fin (- 5)"
  by (simp add: uminus_number_def)

lemma handler_result:
  assumes "getElementById doc ''app'' = Some app"
  shows "on_DOMContentLoaded doc new_Passion rndi =
    Some \<lparr>passion = (new_Passion app)
             \<lparr>width := Fin 360, height := Fin 240,
              rng := snd (rndi (snd (rndi (rng (new_Passion app)) (Fin (- 5)) (Fin 5)))
                       (Fin (- 5)) (Fin 5)),
              calls := calls (new_Passion app) @
                [System_init (Fin 360) (Fin 240) ''My first, but wonderful game!'',
                 Math_rndi (Fin (- 5)) (Fin 5), Math_rndi (Fin (- 5)) (Fin 5), System_run]\<rparr>,
           radius = Fin 16, speed = Fin 20, x = Fin 180, y = Fin 120,
           dx = fst (rndi (rng (new_Passion app)) (Fin (- 5)) (Fin 5)),
           dy = fst (rndi (snd (rndi (rng (new_Passion app)) (Fin (- 5)) (Fin 5)))
                  (Fin (- 5)) (Fin 5))\<rparr>"
  using assms
  by (simp add: on_DOMContentLoaded_def listener_def system_init_def math_rndi_def
      system_run_def Let_def half_extents minus_five split: prod.splits)

lemma handler_Some_iff:
  "on_DOMContentLoaded doc new_Passion rndi = Some e \<Longrightarrow> \<exists>app. getElementById doc ''app'' = Some app"
  by (cases "getElementById doc ''app''") (simp_all add: on_DOMContentLoaded_def listener_def)

lemma listener_nothing:
  assumes "getElementById doc ''app'' = None"
  shows "listener doc new_Passion rndi = \<lparr>events = [], registered = None, scope = None\<rparr>"
  using assms by (simp add: listener_def)

lemma listener_setup:
  assumes "getElementById doc ''app'' = Some app"
  shows "events (listener doc new_Passion rndi) =
      [Construct app,
       Engine_call (System_init (Fin 360) (Fin 240) ''My first, but wonderful game!''),
       Engine_call (Math_rndi (Fin (- 5)) (Fin 5)), Engine_call (Math_rndi (Fin (- 5)) (Fin 5)),
       Engine_call System_run]"
    and "registered (listener doc new_Passion rndi) = Some (update, draw)"
  using assms
  by (simp_all add: listener_def system_init_def math_rndi_def system_run_def Let_def
      issued_def minus_five split: prod.splits)

lemma run_registered_frames: "run_registered (update, draw) e evs = frames e evs"
proof -
  have f: "(case ev of Tick dt \<Rightarrow> fst (update, draw) a dt | Frame \<Rightarrow> snd (update, draw) a)
      = frame a ev" for a :: "'a env" and ev
    by (cases ev) simp_all
  show ?thesis unfolding run_registered_def frames_def f ..
qed

lemma frames_Nil: "frames e [] = e"
  by (simp add: frames_def)

lemma frames_snoc: "frames e (evs @ [ev]) = frame (frames e evs) ev"
  by (simp add: frames_def)

lemma draw_keeps:
  "radius (draw e) = radius e" "speed (draw e) = speed e" "x (draw e) = x e" "y (draw e) = y e"
  "dx (draw e) = dx e" "dy (draw e) = dy e"
  by (simp_all add: draw_def Let_def)

lemma update_keeps:
  "radius (update e dt) = radius e" "speed (update e dt) = speed e"
  "passion (update e dt) = passion e"
  by (simp_all add: update_def bounce_def advance_def Let_def)

lemma frame_keeps: "radius (frame e ev) = radius e" "speed (frame e ev) = speed e"
  by (cases ev; simp add: draw_keeps update_keeps)+

lemma frames_keeps: "radius (frames e evs) = radius e \<and> speed (frames e evs) = speed e"
  by (induction evs rule: rev_induct) (simp_all add: frames_Nil frames_snoc frame_keeps)

lemma draw_issued:
  "issued (passion e) (passion (draw e)) =
     [Graphics_cls (Fin 2), Graphics_circ (x e) (y e) (radius e) (Fin 1),
      Graphics_text (Fin 100) (Fin 50) ''Welcome to the passion engine!'' (Fin 15)]"
  by (simp add: issued_def draw_def graphics_cls_def graphics_circ_def graphics_text_def Let_def)

lemma lowest_in_range: "rndi_in_range lowest"
  unfolding rndi_in_range_def lowest_def
  by (auto simp: less_eq_number_def less_number_def)

lemma update_dx_cases: "dx (update e dt) = dx e \<or> dx (update e dt) = - dx e"
  by (simp add: update_def bounce_def advance_def Let_def)

lemma update_dy_cases: "dy (update e dt) = dy e \<or> dy (update e dt) = - dy e"
  by (simp add: update_def bounce_def advance_def Let_def)

lemma frame_abs: "\<bar>dx (frame e ev)\<bar> = \<bar>dx e\<bar>" "\<bar>dy (frame e ev)\<bar> = \<bar>dy e\<bar>"
proof -
  show "\<bar>dx (frame e ev)\<bar> = \<bar>dx e\<bar>"
  proof (cases ev)
    case (Tick dt)
    then show ?thesis using update_dx_cases[of e dt] by (auto simp: abs_uminus_number)
  next
    case Frame
    then show ?thesis by (simp add: draw_keeps)
  qed
  show "\<bar>dy (frame e ev)\<bar> = \<bar>dy e\<bar>"
  proof (cases ev)
    case (Tick dt)
    then show ?thesis using update_dy_cases[of e dt] by (auto simp: abs_uminus_number)
  next
    case Frame
    then show ?thesis by (simp add: draw_keeps)
  qed
qed

lemma frames_abs: "\<bar>dx (frames e evs)\<bar> = \<bar>dx e\<bar> \<and> \<bar>dy (frames e evs)\<bar> = \<bar>dy e\<bar>"
  by (induction evs rule: rev_induct) (simp_all add: frames_Nil frames_snoc frame_abs)

lemma unmoved_strict_eq: "a \<noteq> NaN \<Longrightarrow> unmoved a b \<Longrightarrow> strict_eq b a"
  by (cases a) (auto simp: unmoved_def strict_eq_def less_number_def)

lemma unmoved_is_f64: "is_f64 a \<Longrightarrow> unmoved a b \<Longrightarrow> is_f64 b"
  by (auto simp: unmoved_def round_f64_def)

lemma unmoved_plus_zero:
  assumes "is_f64 a" "unmoved a b" "is_zero z"
  shows "unmoved a (b + z)"
proof -
  have "is_f64 b" using assms(1,2) by (rule unmoved_is_f64)
  from plus_zero[OF this assms(3)] assms(2) show ?thesis
    by (auto simp: unmoved_def)
qed

lemma still_product: "is_finite s \<Longrightarrow> is_zero d \<Longrightarrow> is_finite t \<Longrightarrow> is_zero (s * d * t)"
  by (cases s; cases d; cases t) (simp_all add: times_number_def signed_zero_def)

lemma frame_still_x:
  assumes "is_zero (dx e)" "is_finite (speed e)" "is_f64 a" "unmoved a (x e)" "finite_time ev"
  shows "is_zero (dx (frame e ev)) \<and> unmoved a (x (frame e ev))"
proof (cases ev)
  case (Tick dt)
  then have "is_finite dt" using assms(5) by simp
  then have z: "is_zero (speed e * dx e * dt)" using assms(1,2) by (intro still_product)
  have "unmoved a (x e + speed e * dx e * dt)" using assms(3,4) z by (rule unmoved_plus_zero)
  moreover have "is_zero (dx (update e dt))"
    using update_dx_cases[of e dt] assms(1) by (auto simp: is_zero_uminus)
  ultimately show ?thesis
    using Tick by (simp add: update_def bounce_def advance_def Let_def)
next
  case Frame
  then show ?thesis using assms by (simp add: draw_keeps)
qed

lemma frame_still_y:
  assumes "is_zero (dy e)" "is_finite (speed e)" "is_f64 a" "unmoved a (y e)" "finite_time ev"
  shows "is_zero (dy (frame e ev)) \<and> unmoved a (y (frame e ev))"
proof (cases ev)
  case (Tick dt)
  then have "is_finite dt" using assms(5) by simp
  then have z: "is_zero (speed e * dy e * dt)" using assms(1,2) by (intro still_product)
  have "unmoved a (y e + speed e * dy e * dt)" using assms(3,4) z by (rule unmoved_plus_zero)
  moreover have "is_zero (dy (update e dt))"
    using update_dy_cases[of e dt] assms(1) by (auto simp: is_zero_uminus)
  ultimately show ?thesis
    using Tick by (simp add: update_def bounce_def advance_def Let_def)
next
  case Frame
  then show ?thesis using assms by (simp add: draw_keeps)
qed

lemma frames_still_x:
  assumes "is_zero (dx e)" "is_finite (speed e)" "is_f64 (x e)" "\<forall>ev\<in>set evs. finite_time ev"
  shows "is_zero (dx (frames e evs)) \<and> unmoved (x e) (x (frames e evs))"
  using assms(4)
proof (induction evs rule: rev_induct)
  case Nil
  then show ?case using assms(1) by (simp add: frames_Nil unmoved_def)
next
  case (snoc ev evs)
  then have ih: "is_zero (dx (frames e evs))" "unmoved (x e) (x (frames e evs))" by simp_all
  have sp: "is_finite (speed (frames e evs))" using assms(2) by (simp add: frames_keeps)
  have "finite_time ev" using snoc.prems by simp
  from frame_still_x[OF ih(1) sp assms(3) ih(2) this] show ?case by (simp add: frames_snoc)
qed

lemma frames_still_y:
  assumes "is_zero (dy e)" "is_finite (speed e)" "is_f64 (y e)" "\<forall>ev\<in>set evs. finite_time ev"
  shows "is_zero (dy (frames e evs)) \<and> unmoved (y e) (y (frames e evs))"
  using assms(4)
proof (induction evs rule: rev_induct)
  case Nil
  then show ?case using assms(1) by (simp add: frames_Nil unmoved_def)
next
  case (snoc ev evs)
  then have ih: "is_zero (dy (frames e evs))" "unmoved (y e) (y (frames e evs))" by simp_all
  have sp: "is_finite (speed (frames e evs))" using assms(2) by (simp add: frames_keeps)
  have "finite_time ev" using snoc.prems by simp
  from frame_still_y[OF ih(1) sp assms(3) ih(2) this] show ?case by (simp add: frames_snoc)
qed

lemma handler_start:
  assumes "on_DOMContentLoaded doc new_Passion rndi = Some e"
  shows "x e = Fin 180 \<and> y e = Fin 120 \<and> radius e = Fin 16 \<and> speed e = Fin 20"
proof -
  from assms obtain app where "getElementById doc ''app'' = Some app"
    using handler_Some_iff by blast
  from handler_result[OF this, of new_Passion rndi] assms show ?thesis by auto
qed

lemma handler_still_x:
  assumes "on_DOMContentLoaded doc new_Passion rndi = Some e" "is_zero (dx e)"
    "\<forall>ev\<in>set evs. finite_time ev"
  shows "x (frames e evs) = Fin 180"
proof -
  note s = handler_start[OF assms(1)]
  have "is_finite (speed e)" "is_f64 (x e)"
    using s by (simp_all add: is_f64_small del: is_f64.simps)
  from frames_still_x[OF assms(2) this assms(3)] s show ?thesis by (simp add: unmoved_def)
qed

lemma handler_still_y:
  assumes "on_DOMContentLoaded doc new_Passion rndi = Some e" "is_zero (dy e)"
    "\<forall>ev\<in>set evs. finite_time ev"
  shows "y (frames e evs) = Fin 120"
proof -
  note s = handler_start[OF assms(1)]
  have "is_finite (speed e)" "is_f64 (y e)"
    using s by (simp_all add: is_f64_small del: is_f64.simps)
  from frames_still_y[OF assms(2) this assms(3)] s show ?thesis by (simp add: unmoved_def)
qed

lemma update_doubles: "doubles e \<Longrightarrow> doubles (update e dt)"
  unfolding doubles_def update_def bounce_def advance_def Let_def
  by (simp add: is_f64_plus is_f64_times is_f64_uminus del: is_f64.simps)

lemma frames_doubles: "doubles e \<Longrightarrow> doubles (frames e evs)"
proof (induction evs rule: rev_induct)
  case Nil
  then show ?case by (simp add: frames_Nil)
next
  case (snoc ev evs)
  then have "doubles (frames e evs)" by simp
  then have "doubles (frame (frames e evs) ev)"
    by (cases ev) (simp_all add: update_doubles, simp add: doubles_def draw_keeps del: is_f64.simps)
  then show ?case by (simp add: frames_snoc)
qed

lemma integer_is_f64:
  assumes "is_integer a" "Fin (- 5) \<le> a" "a \<le> Fin 5"
  shows "is_f64 a"
proof (cases a)
  case (Fin r)
  then obtain n where n: "r = of_int n" using assms(1) by (metis is_integer.simps(1))
  have "- 5 \<le> r" "r \<le> 5" using assms(2,3) Fin by (simp_all add: less_eq_number_def less_number_def)
  then have "\<bar>n\<bar> \<le> 5" using n by simp
  then have "\<bar>n\<bar> < 2 ^ 53" "\<bar>of_int n * (2::rat) powi 0\<bar> < 2 ^ 1024"
    by simp_all
  from round_f64_exact[OF this(1) _ this(2)] show ?thesis using Fin n by simp
qed simp_all

lemma handler_doubles:
  assumes "rndi_in_range rndi" "on_DOMContentLoaded doc new_Passion rndi = Some e"
  shows "doubles (frames e evs)"
proof -
  from assms(2) obtain app where app: "getElementById doc ''app'' = Some app"
    using handler_Some_iff by blast
  note r = handler_result[OF app, of new_Passion rndi]
  have b: "is_integer (Fin (- 5)) \<and> is_integer (Fin 5) \<and> Fin (- 5) \<le> Fin 5"
    by (simp add: less_eq_number_def less_number_def)
  have "is_f64 (dx e)" "is_f64 (dy e)"
    using r assms b unfolding rndi_in_range_def by (auto intro!: integer_is_f64)
  moreover have "is_f64 (x e)" "is_f64 (y e)"
    using r assms(2) is_f64_small by auto
  ultimately have "doubles e" by (simp add: doubles_def del: is_f64.simps)
  then show ?thesis by (rule frames_doubles)
qed

section \<open>The update callback\<close>

text \<open>
  C1. After one call of the update callback, with any elapsed time, the position is the
  previous position plus speed times velocity times elapsed time on each axis, in the
  arithmetic of the program; the boundary check that follows the move leaves the
  position as it is.
\<close>

theorem update_moves_position:
  "x (update e dt) = x e + speed e * dx e * dt \<and>
   y (update e dt) = y e + speed e * dy e * dt \<and>
   x (bounce a) = x a \<and> y (bounce a) = y a"
  by (simp add: update_def bounce_def advance_def Let_def)

theorem update_moves_position_witness:
  "x (update (ball (Fin 180) (Fin 120) (Fin 3) (Fin (- 2))) tenth) = Fin 186 \<and>
   y (update (ball (Fin 180) (Fin 120) (Fin 3) (Fin (- 2))) tenth) = Fin 116 \<and>
   x (bounce (ball (Fin 2) (Fin 120) (Fin (- 3)) (Fin 0))) = Fin 2"
  using update_moves_position[of "ball (Fin 180) (Fin 120) (Fin 3) (Fin (- 2))" tenth
      "ball (Fin 2) (Fin 120) (Fin (- 3)) (Fin 0)"]
  by (simp add: ball_def scenario_x scenario_y)

text \<open>
  C2. On each axis by itself: when the moved position minus the radius is at most 0, or
  the moved position plus the radius is at least the viewport extent, the velocity
  component after the update is the negation of the one before, which for a binary64
  value is \<open>-1\<close> times it; otherwise the component is unchanged.
\<close>

theorem update_reverses_at_edge:
  "dx (update e dt) =
     (if x (advance e dt) - radius e \<le> Fin 0 \<or> x (advance e dt) + radius e \<ge> width (passion e)
      then - dx e else dx e) \<and>
   dy (update e dt) =
     (if y (advance e dt) - radius e \<le> Fin 0 \<or> y (advance e dt) + radius e \<ge> height (passion e)
      then - dy e else dy e) \<and>
   x (update e dt) = x (advance e dt) \<and> y (update e dt) = y (advance e dt) \<and>
   (is_f64 (dx e) \<longrightarrow> - dx e = Fin (- 1) * dx e) \<and>
   (is_f64 (dy e) \<longrightarrow> - dy e = Fin (- 1) * dy e)"
  by (simp add: update_def bounce_def advance_def Let_def times_minus_one)

theorem update_reverses_at_edge_witness:
  "is_f64 (Fin (- 3)) \<and>
   x (advance (ball (Fin 2) (Fin 120) (Fin (- 3)) (Fin 0)) tenth) = Fin (- 4) \<and>
   Fin (- 4) - Fin 16 \<le> Fin 0 \<and>
   dx (update (ball (Fin 2) (Fin 120) (Fin (- 3)) (Fin 0)) tenth) = Fin 3 \<and>
   Fin 3 = Fin (- 1) * Fin (- 3) \<and>
   dy (update (ball (Fin 2) (Fin 120) (Fin (- 3)) (Fin 0)) tenth) = Fin 0"
  using update_reverses_at_edge[of "ball (Fin 2) (Fin 120) (Fin (- 3)) (Fin 0)" tenth]
  by (simp add: ball_def viewport_def advance_def left_move no_move left_edge inside_y
      is_f64_small uminus_number_def del: is_f64.simps)

text \<open>
  C3. The scenario of the spec: viewport 360 by 240, radius 16, position (180, 120),
  velocity (3, -2), speed 20, elapsed time \<^verbatim>\<open>0.1\<close>. One update gives position (186, 116);
  no boundary condition holds and the velocity stays (3, -2).
\<close>

theorem scenario_centre:
  assumes "width (passion e) = Fin 360" "height (passion e) = Fin 240" "radius e = Fin 16"
    "x e = Fin 180" "y e = Fin 120" "dx e = Fin 3" "dy e = Fin (- 2)" "speed e = Fin 20"
  shows "x (update e tenth) = Fin 186 \<and> y (update e tenth) = Fin 116 \<and>
    dx (update e tenth) = Fin 3 \<and> dy (update e tenth) = Fin (- 2) \<and>
    \<not> (x (update e tenth) - radius e \<le> Fin 0 \<or> x (update e tenth) + radius e \<ge> width (passion e)) \<and>
    \<not> (y (update e tenth) - radius e \<le> Fin 0 \<or> y (update e tenth) + radius e \<ge> height (passion e))"
  using assms
  by (simp add: update_def bounce_def advance_def Let_def scenario_x scenario_y scenario_inside)

theorem scenario_centre_witness:
  "x (update (ball (Fin 180) (Fin 120) (Fin 3) (Fin (- 2))) tenth) = Fin 186 \<and>
   y (update (ball (Fin 180) (Fin 120) (Fin 3) (Fin (- 2))) tenth) = Fin 116 \<and>
   dx (update (ball (Fin 180) (Fin 120) (Fin 3) (Fin (- 2))) tenth) = Fin 3 \<and>
   dy (update (ball (Fin 180) (Fin 120) (Fin 3) (Fin (- 2))) tenth) = Fin (- 2)"
  using scenario_centre[of "ball (Fin 180) (Fin 120) (Fin 3) (Fin (- 2))"]
  by (simp add: ball_def viewport_def)

text \<open>
  C4, as amended. At \<open>x = 2\<close> with radius 16, a negative \<open>dx\<close>, a speed that is at least 0
  and an elapsed time that is at least 0: whenever the product \<open>speed * dx * dt\<close> is a
  number (not \<open>NaN\<close>), the moved position minus the radius is at most 0 and the update
  negates \<open>dx\<close>.
\<close>

theorem left_edge_reverses:
  assumes "x e = Fin 2" "radius e = Fin 16" "dx e < Fin 0" "Fin 0 \<le> speed e" "Fin 0 \<le> dt"
    "speed e * dx e * dt \<noteq> NaN"
  shows "x (advance e dt) - radius e \<le> Fin 0 \<and> dx (update e dt) = - dx e"
proof -
  have "Fin 2 + speed e * dx e * dt - Fin 16 \<le> Fin 0"
    using assms(4,3,5,6) by (rule left_edge_reached)
  then show ?thesis
    using assms(1,2) by (simp add: update_def advance_def bounce_def Let_def)
qed

theorem left_edge_reverses_witness:
  "Fin (- 5) < Fin 0 \<and> Fin 0 \<le> Fin 20 \<and> Fin 0 \<le> tenth \<and> Fin 20 * Fin (- 5) * tenth \<noteq> NaN \<and>
   x (advance (ball (Fin 2) (Fin 120) (Fin (- 5)) (Fin 0)) tenth) - Fin 16 \<le> Fin 0 \<and>
   dx (update (ball (Fin 2) (Fin 120) (Fin (- 5)) (Fin 0)) tenth) = Fin 5"
proof -
  have h: "Fin (- 5) < Fin 0" "Fin 0 \<le> Fin 20" "Fin 0 \<le> tenth"
    by (simp_all add: tenth_value less_number_def less_eq_number_def)
  have n: "Fin 20 * Fin (- 5) * tenth \<noteq> NaN" by (simp add: left_fast)
  have "x (advance (ball (Fin 2) (Fin 120) (Fin (- 5)) (Fin 0)) tenth)
          - radius (ball (Fin 2) (Fin 120) (Fin (- 5)) (Fin 0)) \<le> Fin 0 \<and>
        dx (update (ball (Fin 2) (Fin 120) (Fin (- 5)) (Fin 0)) tenth)
          = - dx (ball (Fin 2) (Fin 120) (Fin (- 5)) (Fin 0))"
    by (rule left_edge_reverses) (simp_all add: ball_def h n)
  then show ?thesis using h n by (simp add: ball_def uminus_number_def)
qed

text \<open>
  C4 as stated, for every such state and speed, fails: with the speed 20 of the program,
  \<open>dx = -2\<^sup>1\<^sup>0\<^sup>2\<^sup>3\<close> and \<open>dt = 0\<close> the product \<open>speed * dx\<close> overflows to the negative
  infinity, which times 0 is \<open>NaN\<close>; the position becomes \<open>NaN\<close>, both comparisons
  are false and \<open>dx\<close> is left as it was.
\<close>

theorem left_edge_overflow_counterexample:
  "x (ball (Fin 2) (Fin 120) huge (Fin 0)) = Fin 2 \<and>
   radius (ball (Fin 2) (Fin 120) huge (Fin 0)) = Fin 16 \<and>
   speed (ball (Fin 2) (Fin 120) huge (Fin 0)) = Fin 20 \<and>
   is_f64 huge \<and>
   dx (ball (Fin 2) (Fin 120) huge (Fin 0)) < Fin 0 \<and>
   Fin 0 \<le> Fin 20 \<and> Fin 0 \<le> Fin 0 \<and>
   x (advance (ball (Fin 2) (Fin 120) huge (Fin 0)) (Fin 0)) = NaN \<and>
   \<not> x (advance (ball (Fin 2) (Fin 120) huge (Fin 0)) (Fin 0)) - Fin 16 \<le> Fin 0 \<and>
   dx (update (ball (Fin 2) (Fin 120) huge (Fin 0)) (Fin 0)) = huge \<and>
   dx (update (ball (Fin 2) (Fin 120) huge (Fin 0)) (Fin 0))
     \<noteq> - dx (ball (Fin 2) (Fin 120) huge (Fin 0))"
proof -
  have p: "Fin 20 * huge * Fin 0 = NaN"
    by (simp only: huge_overflows) (simp add: times_number_def)
  have a: "Fin 2 + NaN = NaN" "NaN - Fin 16 = NaN" "NaN + Fin 16 = NaN"
    by (simp_all add: plus_number_def minus_number_def)
  have c: "\<not> NaN \<le> Fin 0" "\<not> Fin 360 \<le> NaN"
    by (simp_all add: less_eq_number_def)
  have y: "Fin 120 + Fin 20 * Fin 0 * Fin 0 = Fin 120"
    "\<not> Fin 120 - Fin 16 \<le> Fin 0" "\<not> Fin 240 \<le> Fin 120 + Fin 16"
    by (simp_all add: number_eval)
  have n: "Fin 0 \<le> Fin 20" "Fin 0 \<le> Fin 0"
    by (simp_all add: less_number_def less_eq_number_def)
  show ?thesis
    using huge_is_f64 huge_negative n
    by (simp add: ball_def viewport_def update_def advance_def bounce_def Let_def p a c y)
qed

text \<open>
  C9. The update callback changes only \<open>x\<close>, \<open>y\<close>, \<open>dx\<close> and \<open>dy\<close>; \<open>radius\<close> and \<open>speed\<close>
  keep their values through every call of the update and the draw callback.
\<close>

theorem constants_kept:
  "radius (update e dt) = radius e \<and> speed (update e dt) = speed e \<and>
   passion (update e dt) = passion e \<and>
   update e dt = e\<lparr>x := x (update e dt), y := y (update e dt),
                    dx := dx (update e dt), dy := dy (update e dt)\<rparr> \<and>
   radius (draw e) = radius e \<and> speed (draw e) = speed e \<and>
   radius (frames e evs) = radius e \<and> speed (frames e evs) = speed e"
  by (simp add: update_keeps draw_keeps frames_keeps)

theorem constants_kept_witness:
  "radius (update (ball (Fin 180) (Fin 120) (Fin 3) (Fin (- 2))) tenth) = Fin 16 \<and>
   speed (update (ball (Fin 180) (Fin 120) (Fin 3) (Fin (- 2))) tenth) = Fin 20 \<and>
   radius (frames (ball (Fin 180) (Fin 120) (Fin 3) (Fin (- 2))) [Tick tenth, Frame]) = Fin 16 \<and>
   speed (frames (ball (Fin 180) (Fin 120) (Fin 3) (Fin (- 2))) [Tick tenth, Frame]) = Fin 20"
  using constants_kept[of "ball (Fin 180) (Fin 120) (Fin 3) (Fin (- 2))" tenth
      "[Tick tenth, Frame]"]
  by (simp add: ball_def)

text \<open>
  C10, as amended. Every update keeps or negates each velocity component, so the
  magnitudes of \<open>dx\<close> and \<open>dy\<close> after any run of the frame loop are the initial ones,
  and a component that is zero stays zero. With such a component, a finite speed and
  finite elapsed times, the position on that axis stays equal to the initial one; from
  the state the handler builds it stays 180 on the x axis and 120 on the y axis.
\<close>

theorem velocity_magnitude_kept:
  "(dx (update e dt) = dx e \<or> dx (update e dt) = - dx e) \<and>
   (dy (update e dt) = dy e \<or> dy (update e dt) = - dy e) \<and>
   \<bar>dx (frames e evs)\<bar> = \<bar>dx e\<bar> \<and> \<bar>dy (frames e evs)\<bar> = \<bar>dy e\<bar> \<and>
   (is_zero (dx e) \<longrightarrow> is_zero (dx (frames e evs))) \<and>
   (is_zero (dy e) \<longrightarrow> is_zero (dy (frames e evs))) \<and>
   (is_zero (dx e) \<and> is_finite (speed e) \<and> is_f64 (x e) \<and> x e \<noteq> NaN \<and>
    (\<forall>ev\<in>set evs. finite_time ev) \<longrightarrow> strict_eq (x (frames e evs)) (x e)) \<and>
   (is_zero (dy e) \<and> is_finite (speed e) \<and> is_f64 (y e) \<and> y e \<noteq> NaN \<and>
    (\<forall>ev\<in>set evs. finite_time ev) \<longrightarrow> strict_eq (y (frames e evs)) (y e)) \<and>
   (on_DOMContentLoaded doc new_Passion rndi = Some e \<and> is_zero (dx e) \<and>
    (\<forall>ev\<in>set evs. finite_time ev) \<longrightarrow> x (frames e evs) = Fin 180) \<and>
   (on_DOMContentLoaded doc new_Passion rndi = Some e \<and> is_zero (dy e) \<and>
    (\<forall>ev\<in>set evs. finite_time ev) \<longrightarrow> y (frames e evs) = Fin 120)"
proof -
  have a: "\<bar>dx (frames e evs)\<bar> = \<bar>dx e\<bar>" "\<bar>dy (frames e evs)\<bar> = \<bar>dy e\<bar>"
    using frames_abs[of e evs] by simp_all
  have zx: "is_zero (dx (frames e evs))" if "is_zero (dx e)"
    using that a(1) by (simp add: is_zero_abs)
  have zy: "is_zero (dy (frames e evs))" if "is_zero (dy e)"
    using that a(2) by (simp add: is_zero_abs)
  have sx: "strict_eq (x (frames e evs)) (x e)"
    if "is_zero (dx e)" "is_finite (speed e)" "is_f64 (x e)" "x e \<noteq> NaN"
      "\<forall>ev\<in>set evs. finite_time ev"
    using frames_still_x[OF that(1,2,3,5)] that(4) by (simp add: unmoved_strict_eq)
  have sy: "strict_eq (y (frames e evs)) (y e)"
    if "is_zero (dy e)" "is_finite (speed e)" "is_f64 (y e)" "y e \<noteq> NaN"
      "\<forall>ev\<in>set evs. finite_time ev"
    using frames_still_y[OF that(1,2,3,5)] that(4) by (simp add: unmoved_strict_eq)
  have hx: "x (frames e evs) = Fin 180"
    if "on_DOMContentLoaded doc new_Passion rndi = Some e" "is_zero (dx e)"
      "\<forall>ev\<in>set evs. finite_time ev"
    using that by (rule handler_still_x)
  have hy: "y (frames e evs) = Fin 120"
    if "on_DOMContentLoaded doc new_Passion rndi = Some e" "is_zero (dy e)"
      "\<forall>ev\<in>set evs. finite_time ev"
    using that by (rule handler_still_y)
  show ?thesis
    using update_dx_cases[of e dt] update_dy_cases[of e dt] a zx zy sx sy hx hy by blast
qed

theorem velocity_magnitude_kept_witness:
  "on_DOMContentLoaded page fresh_engine still \<noteq> None \<and>
   is_zero (dx (the (on_DOMContentLoaded page fresh_engine still))) \<and>
   finite_time (Tick tenth) \<and> finite_time Frame \<and>
   x (frames (the (on_DOMContentLoaded page fresh_engine still)) [Tick tenth, Frame, Tick tenth])
     = Fin 180 \<and>
   y (frames (the (on_DOMContentLoaded page fresh_engine still)) [Tick tenth, Frame, Tick tenth])
     = Fin 120 \<and>
   is_zero (Fin 0) \<and> is_finite (Fin 20) \<and> is_f64 (Fin 180) \<and> Fin 180 \<noteq> NaN \<and>
   strict_eq (x (frames (ball (Fin 180) (Fin 120) (Fin 0) (Fin 3)) [Tick tenth, Frame, Tick tenth]))
     (Fin 180) \<and>
   is_zero (dx (frames (ball (Fin 180) (Fin 120) (Fin 0) (Fin 3)) [Tick tenth, Frame, Tick tenth])) \<and>
   \<bar>dy (frames (ball (Fin 180) (Fin 120) (Fin 0) (Fin 3)) [Tick tenth, Frame, Tick tenth])\<bar> = Fin 3"
proof -
  have s: "getElementById page ''app'' = Some (Element ''canvas'')"
    by (simp add: getElementById_def page_def)
  from handler_result[OF s, of fresh_engine still]
  obtain e0 where e0: "on_DOMContentLoaded page fresh_engine still = Some e0"
    and d: "dx e0 = Fin 0" "dy e0 = Fin 0"
    by (auto simp: still_def)
  have f: "is_f64 (Fin 180)" by (simp add: number_eval)
  have t: "finite_time (Tick tenth)" by (simp add: is_finite_tenth)
  from velocity_magnitude_kept[where e = e0 and evs = "[Tick tenth, Frame, Tick tenth]"
      and doc = page and new_Passion = fresh_engine and rndi = still] e0 d t
  have 1: "x (frames e0 [Tick tenth, Frame, Tick tenth]) = Fin 180"
    "y (frames e0 [Tick tenth, Frame, Tick tenth]) = Fin 120"
    by simp_all
  from velocity_magnitude_kept[where e = "ball (Fin 180) (Fin 120) (Fin 0) (Fin 3)"
      and evs = "[Tick tenth, Frame, Tick tenth]"] f t
  have 2: "strict_eq (x (frames (ball (Fin 180) (Fin 120) (Fin 0) (Fin 3))
        [Tick tenth, Frame, Tick tenth])) (Fin 180)"
    "is_zero (dx (frames (ball (Fin 180) (Fin 120) (Fin 0) (Fin 3)) [Tick tenth, Frame, Tick tenth]))"
    "\<bar>dy (frames (ball (Fin 180) (Fin 120) (Fin 0) (Fin 3)) [Tick tenth, Frame, Tick tenth])\<bar> = Fin 3"
    by (simp_all add: ball_def abs_number_def del: is_f64.simps)
  show ?thesis using e0 d t f 1 2 by (simp del: is_f64.simps)
qed

text \<open>
  C10 as stated, for any sequence of updates, fails: from the state the handler builds
  with both velocity components 0, one update with an infinite elapsed time computes
  \<open>20 * 0 * \<infinity>\<close>, which is \<open>NaN\<close>, and the position becomes \<open>NaN\<close>.
\<close>

theorem infinite_time_counterexample:
  "on_DOMContentLoaded page fresh_engine still \<noteq> None \<and>
   dx (the (on_DOMContentLoaded page fresh_engine still)) = Fin 0 \<and>
   x (the (on_DOMContentLoaded page fresh_engine still)) = Fin 180 \<and>
   Fin 0 \<le> PosInf \<and>
   x (update (the (on_DOMContentLoaded page fresh_engine still)) PosInf) = NaN \<and>
   x (update (the (on_DOMContentLoaded page fresh_engine still)) PosInf)
     \<noteq> x (the (on_DOMContentLoaded page fresh_engine still)) \<and>
   \<not> strict_eq (x (update (the (on_DOMContentLoaded page fresh_engine still)) PosInf))
     (x (the (on_DOMContentLoaded page fresh_engine still)))"
proof -
  have s: "getElementById page ''app'' = Some (Element ''canvas'')"
    by (simp add: getElementById_def page_def)
  have a: "Fin 180 + NaN = NaN" by (simp add: plus_number_def)
  have c: "Fin 0 \<le> PosInf" by (simp add: less_eq_number_def less_number_def)
  show ?thesis
    using handler_result[OF s, of fresh_engine still] c
    by (simp add: still_def update_def bounce_def advance_def Let_def zero_times_infinity a strict_eq_def)
qed

section \<open>The draw callback\<close>

text \<open>
  C5. Two calls of the draw callback with no update between them send the same calls
  with the same arguments to the engine, and the draw callback leaves \<open>x\<close>, \<open>y\<close>, \<open>dx\<close>
  and \<open>dy\<close> as they are.
\<close>

theorem draw_repeats:
  "issued (passion (draw e)) (passion (draw (draw e))) = issued (passion e) (passion (draw e)) \<and>
   x (draw e) = x e \<and> y (draw e) = y e \<and> dx (draw e) = dx e \<and> dy (draw e) = dy e \<and>
   draw e = e\<lparr>passion := passion (draw e)\<rparr>"
  by (simp add: draw_issued draw_keeps)

theorem draw_repeats_witness:
  "issued (passion (draw (ball (Fin 180) (Fin 120) (Fin 3) (Fin (- 2)))))
     (passion (draw (draw (ball (Fin 180) (Fin 120) (Fin 3) (Fin (- 2))))))
   = [Graphics_cls (Fin 2), Graphics_circ (Fin 180) (Fin 120) (Fin 16) (Fin 1),
      Graphics_text (Fin 100) (Fin 50) ''Welcome to the passion engine!'' (Fin 15)] \<and>
   x (draw (ball (Fin 180) (Fin 120) (Fin 3) (Fin (- 2)))) = Fin 180"
  using draw_repeats[of "ball (Fin 180) (Fin 120) (Fin 3) (Fin (- 2))"]
  by (simp add: draw_issued) (simp add: ball_def)

text \<open>
  C6. One call of the draw callback sends, in this order: \<^verbatim>\<open>cls\<close> with colour 2,
  \<^verbatim>\<open>circ\<close> at the current position with the radius and colour 1, and \<^verbatim>\<open>text\<close> with the
  fixed string at (100, 50) in colour 15. In every state the program reaches the
  radius is 16.
\<close>

theorem draw_issues_three_calls:
  "issued (passion e) (passion (draw e)) =
     [Graphics_cls (Fin 2), Graphics_circ (x e) (y e) (radius e) (Fin 1),
      Graphics_text (Fin 100) (Fin 50) ''Welcome to the passion engine!'' (Fin 15)] \<and>
   (on_DOMContentLoaded doc new_Passion rndi = Some e0 \<longrightarrow>
      issued (passion (frames e0 evs)) (passion (draw (frames e0 evs))) =
        [Graphics_cls (Fin 2),
         Graphics_circ (x (frames e0 evs)) (y (frames e0 evs)) (Fin 16) (Fin 1),
         Graphics_text (Fin 100) (Fin 50) ''Welcome to the passion engine!'' (Fin 15)])"
proof -
  have "radius e0 = Fin 16" if "on_DOMContentLoaded doc new_Passion rndi = Some e0"
  proof -
    from that obtain app where "getElementById doc ''app'' = Some app"
      using handler_Some_iff by blast
    from handler_result[OF this, of new_Passion rndi] that show ?thesis by auto
  qed
  then show ?thesis by (simp add: draw_issued frames_keeps)
qed

theorem draw_issues_three_calls_witness:
  "on_DOMContentLoaded page fresh_engine lowest \<noteq> None \<and>
   issued (passion (frames (the (on_DOMContentLoaded page fresh_engine lowest)) [Tick tenth]))
     (passion (draw (frames (the (on_DOMContentLoaded page fresh_engine lowest)) [Tick tenth])))
   = [Graphics_cls (Fin 2),
      Graphics_circ (x (frames (the (on_DOMContentLoaded page fresh_engine lowest)) [Tick tenth]))
        (y (frames (the (on_DOMContentLoaded page fresh_engine lowest)) [Tick tenth])) (Fin 16) (Fin 1),
      Graphics_text (Fin 100) (Fin 50) ''Welcome to the passion engine!'' (Fin 15)]"
proof -
  have "getElementById page ''app'' = Some (Element ''canvas'')"
    by (simp add: getElementById_def page_def)
  from handler_result[OF this, of fresh_engine lowest]
  obtain e0 where e0: "on_DOMContentLoaded page fresh_engine lowest = Some e0" by blast
  from draw_issues_three_calls[of e0 page fresh_engine lowest e0 "[Tick tenth]"] e0
  show ?thesis by simp
qed

section \<open>The handler\<close>

text \<open>
  C7. When the lookup of the element \<^verbatim>\<open>app\<close> gives \<^verbatim>\<open>null\<close>, the listener does nothing:
  no engine is constructed, no call is made into an engine, no diagnostic is shown, no
  callback is registered and no scope is left. When it gives an element, the engine is
  constructed on it, \<^verbatim>\<open>system.init\<close> is called with 360, 240 and the title, and
  \<^verbatim>\<open>system.run\<close> is called and registers the update and the draw callback.
\<close>

theorem missing_surface_skips_setup:
  "(getElementById doc ''app'' = None \<longrightarrow>
      listener doc new_Passion rndi = \<lparr>events = [], registered = None, scope = None\<rparr> \<and>
      (\<forall>el. Construct el \<notin> set (events (listener doc new_Passion rndi))) \<and>
      (\<forall>c. Engine_call c \<notin> set (events (listener doc new_Passion rndi))) \<and>
      (\<forall>m. Diagnostic m \<notin> set (events (listener doc new_Passion rndi))) \<and>
      on_DOMContentLoaded doc new_Passion rndi = None) \<and>
   (getElementById doc ''app'' = Some app \<longrightarrow>
      events (listener doc new_Passion rndi) =
        [Construct app,
         Engine_call (System_init (Fin 360) (Fin 240) ''My first, but wonderful game!''),
         Engine_call (Math_rndi (Fin (- 5)) (Fin 5)),
         Engine_call (Math_rndi (Fin (- 5)) (Fin 5)),
         Engine_call System_run] \<and>
      registered (listener doc new_Passion rndi) = Some (update, draw) \<and>
      (\<exists>e. on_DOMContentLoaded doc new_Passion rndi = Some e \<and>
           scope (listener doc new_Passion rndi) = Some e \<and>
           surface (passion e) = surface (new_Passion app) \<and>
           issued (new_Passion app) (passion e) =
             [System_init (Fin 360) (Fin 240) ''My first, but wonderful game!'',
              Math_rndi (Fin (- 5)) (Fin 5), Math_rndi (Fin (- 5)) (Fin 5), System_run] \<and>
           width (passion e) = Fin 360 \<and> height (passion e) = Fin 240 \<and>
           radius e = Fin 16 \<and> speed e = Fin 20 \<and> x e = Fin 180 \<and> y e = Fin 120 \<and>
           run_registered (update, draw) e evs = frames e evs))"
proof -
  have "listener doc new_Passion rndi = \<lparr>events = [], registered = None, scope = None\<rparr> \<and>
      (\<forall>el. Construct el \<notin> set (events (listener doc new_Passion rndi))) \<and>
      (\<forall>c. Engine_call c \<notin> set (events (listener doc new_Passion rndi))) \<and>
      (\<forall>m. Diagnostic m \<notin> set (events (listener doc new_Passion rndi))) \<and>
      on_DOMContentLoaded doc new_Passion rndi = None"
    if "getElementById doc ''app'' = None"
    using listener_nothing[OF that, of new_Passion rndi] by (simp add: on_DOMContentLoaded_def)
  moreover have "events (listener doc new_Passion rndi) =
        [Construct app,
         Engine_call (System_init (Fin 360) (Fin 240) ''My first, but wonderful game!''),
         Engine_call (Math_rndi (Fin (- 5)) (Fin 5)),
         Engine_call (Math_rndi (Fin (- 5)) (Fin 5)),
         Engine_call System_run] \<and>
      registered (listener doc new_Passion rndi) = Some (update, draw) \<and>
      (\<exists>e. on_DOMContentLoaded doc new_Passion rndi = Some e \<and>
           scope (listener doc new_Passion rndi) = Some e \<and>
           surface (passion e) = surface (new_Passion app) \<and>
           issued (new_Passion app) (passion e) =
             [System_init (Fin 360) (Fin 240) ''My first, but wonderful game!'',
              Math_rndi (Fin (- 5)) (Fin 5), Math_rndi (Fin (- 5)) (Fin 5), System_run] \<and>
           width (passion e) = Fin 360 \<and> height (passion e) = Fin 240 \<and>
           radius e = Fin 16 \<and> speed e = Fin 20 \<and> x e = Fin 180 \<and> y e = Fin 120 \<and>
           run_registered (update, draw) e evs = frames e evs)"
    if "getElementById doc ''app'' = Some app"
  proof -
    note r = handler_result[OF that, of new_Passion rndi]
    have "scope (listener doc new_Passion rndi) = on_DOMContentLoaded doc new_Passion rndi"
      by (simp add: on_DOMContentLoaded_def)
    with r listener_setup[OF that, of new_Passion rndi] show ?thesis
      by (simp add: issued_def run_registered_frames)
  qed
  ultimately show ?thesis by blast
qed

theorem missing_surface_skips_setup_witness:
  "getElementById empty_page ''app'' = None \<and>
   listener empty_page fresh_engine lowest = \<lparr>events = [], registered = None, scope = None\<rparr> \<and>
   on_DOMContentLoaded empty_page fresh_engine lowest = None \<and>
   getElementById page ''app'' = Some (Element ''canvas'') \<and>
   events (listener page fresh_engine lowest) =
     [Construct (Element ''canvas''),
      Engine_call (System_init (Fin 360) (Fin 240) ''My first, but wonderful game!''),
      Engine_call (Math_rndi (Fin (- 5)) (Fin 5)),
      Engine_call (Math_rndi (Fin (- 5)) (Fin 5)),
      Engine_call System_run] \<and>
   registered (listener page fresh_engine lowest) = Some (update, draw) \<and>
   (\<exists>e. on_DOMContentLoaded page fresh_engine lowest = Some e \<and>
      calls (passion e) =
        [System_init (Fin 360) (Fin 240) ''My first, but wonderful game!'',
         Math_rndi (Fin (- 5)) (Fin 5), Math_rndi (Fin (- 5)) (Fin 5), System_run])"
proof -
  have n: "getElementById empty_page ''app'' = None"
    by (simp add: getElementById_def empty_page_def)
  have s: "getElementById page ''app'' = Some (Element ''canvas'')"
    by (simp add: getElementById_def page_def)
  from missing_surface_skips_setup[where doc = empty_page and new_Passion = fresh_engine
      and rndi = lowest and app = "Element ''canvas''" and evs = "[]"] n
  have 1: "listener empty_page fresh_engine lowest =
      \<lparr>events = [], registered = None, scope = None\<rparr>"
    "on_DOMContentLoaded empty_page fresh_engine lowest = None"
    by simp_all
  note t = missing_surface_skips_setup[where doc = page and new_Passion = fresh_engine
      and rndi = lowest and app = "Element ''canvas''" and evs = "[]"]
  from t s have 2: "events (listener page fresh_engine lowest) =
     [Construct (Element ''canvas''),
      Engine_call (System_init (Fin 360) (Fin 240) ''My first, but wonderful game!''),
      Engine_call (Math_rndi (Fin (- 5)) (Fin 5)),
      Engine_call (Math_rndi (Fin (- 5)) (Fin 5)),
      Engine_call System_run]"
    "registered (listener page fresh_engine lowest) = Some (update, draw)"
    by simp_all
  from t s obtain e where e: "on_DOMContentLoaded page fresh_engine lowest = Some e"
    "issued (fresh_engine (Element ''canvas'')) (passion e) =
        [System_init (Fin 360) (Fin 240) ''My first, but wonderful game!'',
         Math_rndi (Fin (- 5)) (Fin 5), Math_rndi (Fin (- 5)) (Fin 5), System_run]"
    by auto
  from e(2) have "calls (passion e) =
        [System_init (Fin 360) (Fin 240) ''My first, but wonderful game!'',
         Math_rndi (Fin (- 5)) (Fin 5), Math_rndi (Fin (- 5)) (Fin 5), System_run]"
    by (simp add: issued_def fresh_engine_def)
  with n s 1 2 e(1) show ?thesis by simp
qed

text \<open>
  C8. The handler calls \<^verbatim>\<open>math.rndi(-5, 5)\<close> exactly twice; the first result is \<open>dx\<close>,
  the second is \<open>dy\<close>. When \<^verbatim>\<open>rndi\<close> returns an integer within its bounds, both are
  integers in \<open>[-5, 5]\<close>.
\<close>

theorem initial_velocity_from_rndi:
  assumes "getElementById doc ''app'' = Some app"
    and "on_DOMContentLoaded doc new_Passion rndi = Some e"
  shows "dx e = fst (rndi (rng (new_Passion app)) (Fin (- 5)) (Fin 5)) \<and>
    dy e = fst (rndi (snd (rndi (rng (new_Passion app)) (Fin (- 5)) (Fin 5))) (Fin (- 5)) (Fin 5)) \<and>
    filter is_rndi (issued (new_Passion app) (passion e)) =
      [Math_rndi (Fin (- 5)) (Fin 5), Math_rndi (Fin (- 5)) (Fin 5)] \<and>
    (rndi_in_range rndi \<longrightarrow>
       is_integer (dx e) \<and> Fin (- 5) \<le> dx e \<and> dx e \<le> Fin 5 \<and>
       is_integer (dy e) \<and> Fin (- 5) \<le> dy e \<and> dy e \<le> Fin 5)"
proof -
  note r = handler_result[OF assms(1), of new_Passion rndi]
  have b: "is_integer (Fin (- 5)) \<and> is_integer (Fin 5) \<and> Fin (- 5) \<le> Fin 5"
    by (simp add: less_eq_number_def less_number_def)
  have d: "dx e = fst (rndi (rng (new_Passion app)) (Fin (- 5)) (Fin 5))"
    "dy e = fst (rndi (snd (rndi (rng (new_Passion app)) (Fin (- 5)) (Fin 5))) (Fin (- 5)) (Fin 5))"
    using r assms(2) by auto
  have c: "filter is_rndi (issued (new_Passion app) (passion e)) =
      [Math_rndi (Fin (- 5)) (Fin 5), Math_rndi (Fin (- 5)) (Fin 5)]"
    using r assms(2) by (auto simp: issued_def)
  have "is_integer (dx e) \<and> Fin (- 5) \<le> dx e \<and> dx e \<le> Fin 5 \<and>
       is_integer (dy e) \<and> Fin (- 5) \<le> dy e \<and> dy e \<le> Fin 5" if "rndi_in_range rndi"
    using that b unfolding d rndi_in_range_def by blast
  with d c show ?thesis by blast
qed

theorem initial_velocity_from_rndi_witness:
  "getElementById page ''app'' = Some (Element ''canvas'') \<and>
   on_DOMContentLoaded page fresh_engine lowest \<noteq> None \<and>
   rndi_in_range lowest \<and>
   dx (the (on_DOMContentLoaded page fresh_engine lowest)) = Fin (- 5) \<and>
   dy (the (on_DOMContentLoaded page fresh_engine lowest)) = Fin (- 5) \<and>
   is_integer (dx (the (on_DOMContentLoaded page fresh_engine lowest))) \<and>
   Fin (- 5) \<le> dx (the (on_DOMContentLoaded page fresh_engine lowest)) \<and>
   dx (the (on_DOMContentLoaded page fresh_engine lowest)) \<le> Fin 5"
proof -
  have s: "getElementById page ''app'' = Some (Element ''canvas'')"
    by (simp add: getElementById_def page_def)
  from handler_result[OF s, of fresh_engine lowest]
  obtain e where e: "on_DOMContentLoaded page fresh_engine lowest = Some e" by blast
  from initial_velocity_from_rndi[OF s e] lowest_in_range s e
  show ?thesis by (simp add: lowest_def less_eq_number_def less_number_def)
qed

end
